theory Spec2Isabelle
  imports Complex_Main "HOL-Library.Multiset"
begin

section \<open>Python values used by the analyzer\<close>

text \<open>
  The program is \<^verbatim>\<open>advanced_traffic_analyzer.py\<close>. Python integers are unbounded and
  are modelled by \<^typ>\<open>int\<close>. A Python \<^verbatim>\<open>str\<close> is modelled by \<^typ>\<open>string\<close>: the
  model covers code points below 256, and case mapping is the ASCII one. Exceptions are
  values of \<open>pyerr\<close>; a computation that may raise returns \<open>pyerr + 'a\<close>.
\<close>

datatype pyerr = ValueError | IndexError | OverflowError

definition bind_err :: "pyerr + 'a \<Rightarrow> ('a \<Rightarrow> pyerr + 'b) \<Rightarrow> pyerr + 'b" where
  "bind_err m f = (case m of Inl e \<Rightarrow> Inl e | Inr x \<Rightarrow> f x)"

subsection \<open>Characters and strings\<close>

text \<open>\<^verbatim>\<open>str.isspace\<close> on one character: the white-space code points below 256.\<close>

definition isspace :: "char \<Rightarrow> bool" where
  "isspace c = (of_char c \<in> {9, 10, 11, 12, 13, 28, 29, 30, 31, 32, 133, 160 :: nat})"

definition isdigit :: "char \<Rightarrow> bool" where
  "isdigit c = (48 \<le> (of_char c :: nat) \<and> (of_char c :: nat) \<le> 57)"

definition digit_val :: "char \<Rightarrow> int" where
  "digit_val c = of_char c - 48"

definition digit_char :: "nat \<Rightarrow> char" where
  "digit_char d = ''0123456789'' ! (d mod 10)"

definition upper_char :: "char \<Rightarrow> char" where
  "upper_char c =
     (if 97 \<le> (of_char c :: nat) \<and> (of_char c :: nat) \<le> 122
      then char_of ((of_char c :: nat) - 32) else c)"

text \<open>\<^verbatim>\<open>str.upper\<close>.\<close>

definition upper :: "string \<Rightarrow> string" where
  "upper s = map upper_char s"

text \<open>\<^verbatim>\<open>str.strip()\<close>: leading and trailing white space removed.\<close>

definition strip :: "string \<Rightarrow> string" where
  "strip s = rev (dropWhile isspace (rev (dropWhile isspace s)))"

text \<open>
  \<^verbatim>\<open>str.split()\<close> with no separator: the maximal runs of non-white-space characters,
  left to right. \<open>cur\<close> holds the characters of the token being read, last one first.
\<close>

fun split_acc :: "string \<Rightarrow> string \<Rightarrow> string list" where
  "split_acc cur [] = (if cur = [] then [] else [rev cur])"
| "split_acc cur (c # cs) =
     (if isspace c then (if cur = [] then split_acc [] cs else rev cur # split_acc [] cs)
      else split_acc (c # cur) cs)"

definition split :: "string \<Rightarrow> string list" where
  "split s = split_acc [] s"

text \<open>\<^verbatim>\<open>sep.join(xs)\<close>.\<close>

fun join :: "string \<Rightarrow> string list \<Rightarrow> string" where
  "join sep [] = []"
| "join sep [x] = x"
| "join sep (x # y # ys) = x @ sep @ join sep (y # ys)"

text \<open>\<^verbatim>\<open>xs[i]\<close> for a non-negative index: IndexError out of range.\<close>

definition index :: "'a list \<Rightarrow> nat \<Rightarrow> pyerr + 'a" where
  "index xs i = (if i < length xs then Inr (xs ! i) else Inl IndexError)"

subsection \<open>Integers and their decimal text\<close>

text \<open>
  \<^verbatim>\<open>int(s)\<close> in base 10: surrounding white space is dropped, then an optional sign,
  then decimal digits, where single underscores may stand between two digits. Anything
  else raises ValueError. The interpreter's limit on the number of digits of a literal
  (4300 by default in recent versions), beyond which \<^verbatim>\<open>int\<close> raises ValueError as
  well, is not modelled.
\<close>

fun int_digits :: "int \<Rightarrow> string \<Rightarrow> int option" where
  "int_digits acc [] = Some acc"
| "int_digits acc (c # cs) =
     (if isdigit c then int_digits (10 * acc + digit_val c) cs
      else if c = CHR ''_'' then
        (case cs of
           [] \<Rightarrow> None
         | d # ds \<Rightarrow> if isdigit d then int_digits (10 * acc + digit_val d) ds else None)
      else None)"

definition int_unsigned :: "string \<Rightarrow> int option" where
  "int_unsigned s =
     (case s of
        [] \<Rightarrow> None
      | c # cs \<Rightarrow> if isdigit c then int_digits (digit_val c) cs else None)"

definition int_literal :: "string \<Rightarrow> int option" where
  "int_literal s =
     (case strip s of
        [] \<Rightarrow> None
      | c # cs \<Rightarrow>
          if c = CHR ''-'' then map_option uminus (int_unsigned cs)
          else if c = CHR ''+'' then int_unsigned cs
          else int_unsigned (c # cs))"

definition py_int :: "string \<Rightarrow> pyerr + int" where
  "py_int s = (case int_literal s of None \<Rightarrow> Inl ValueError | Some n \<Rightarrow> Inr n)"

text \<open>\<^verbatim>\<open>str(n)\<close> for an integer.\<close>

fun show_nat :: "nat \<Rightarrow> string" where
  "show_nat n =
     (if n < 10 then [digit_char n] else show_nat (n div 10) @ [digit_char (n mod 10)])"

declare show_nat.simps [simp del]

definition str_int :: "int \<Rightarrow> string" where
  "str_int n = (if n < 0 then CHR ''-'' # show_nat (nat (- n)) else show_nat (nat n))"

section \<open>Parsing one log line\<close>

text \<open>
  A parsed record is the 6-tuple \<^verbatim>\<open>(timestamp, ip, method, url, status, size)\<close> that
  \<^verbatim>\<open>parse_log_line\<close> returns.
\<close>

type_synonym log_record = "int \<times> string \<times> string \<times> string \<times> int \<times> int"

definition timestamp_of :: "log_record \<Rightarrow> int" where
  "timestamp_of r = (case r of (timestamp, ip, method, url, status, sz) \<Rightarrow> timestamp)"

definition ip_of :: "log_record \<Rightarrow> string" where
  "ip_of r = (case r of (timestamp, ip, method, url, status, sz) \<Rightarrow> ip)"

definition method_of :: "log_record \<Rightarrow> string" where
  "method_of r = (case r of (timestamp, ip, method, url, status, sz) \<Rightarrow> method)"

definition url_of :: "log_record \<Rightarrow> string" where
  "url_of r = (case r of (timestamp, ip, method, url, status, sz) \<Rightarrow> url)"

definition status_of :: "log_record \<Rightarrow> int" where
  "status_of r = (case r of (timestamp, ip, method, url, status, sz) \<Rightarrow> status)"

definition size_of :: "log_record \<Rightarrow> int" where
  "size_of r = (case r of (timestamp, ip, method, url, status, sz) \<Rightarrow> sz)"

text \<open>
  The body of the \<^verbatim>\<open>try\<close> block of \<^verbatim>\<open>parse_log_line\<close>: the tuple is built left to
  right, and the first exception raised ends it.
\<close>

definition parse_fields :: "string list \<Rightarrow> pyerr + log_record" where
  "parse_fields parts =
     bind_err (index parts 0) (\<lambda>p0. bind_err (py_int p0) (\<lambda>timestamp.
     bind_err (index parts 1) (\<lambda>ip.
     bind_err (index parts 2) (\<lambda>p2.
     bind_err (index parts 3) (\<lambda>url.
     bind_err (index parts 4) (\<lambda>p4. bind_err (py_int p4) (\<lambda>status.
     bind_err (index parts 5) (\<lambda>p5. bind_err (py_int p5) (\<lambda>sz.
       Inr (timestamp, ip, upper p2, url, status, sz))))))))))"

text \<open>
  \<^verbatim>\<open>parse_log_line\<close>: \<open>Inr None\<close> is the returned \<^verbatim>\<open>None\<close>, \<open>Inr (Some r)\<close> a returned
  tuple, and \<open>Inl e\<close> an exception that leaves the function. The handler catches
  ValueError only.
\<close>

definition parse_log_line :: "string \<Rightarrow> pyerr + log_record option" where
  "parse_log_line line =
     (let parts = split (strip line) in
      if length parts \<noteq> 6 then Inr None
      else (case parse_fields parts of
              Inr r \<Rightarrow> Inr (Some r)
            | Inl ValueError \<Rightarrow> Inr None
            | Inl e \<Rightarrow> Inl e))"

section \<open>Filters\<close>

text \<open>
  The namespace that \<^verbatim>\<open>parse_args\<close> returns, as far as the engine reads it:
  \<^verbatim>\<open>args.method\<close>, \<^verbatim>\<open>args.status_filter\<close>, \<^verbatim>\<open>args.start\<close>, \<^verbatim>\<open>args.end\<close> and
  \<^verbatim>\<open>args.top\<close>. \<open>None\<close> is Python's \<^verbatim>\<open>None\<close>.
\<close>

record args =
  args_method :: "string option"
  args_status_filter :: "(int \<times> int) option"
  args_start :: "int option"
  args_end :: "int option"
  args_top :: int

text \<open>
  Truth values of Python objects in a condition: \<^verbatim>\<open>None\<close>, the integer 0 and the empty
  string are false. A pair is never false.
\<close>

definition truthy_int :: "int option \<Rightarrow> bool" where
  "truthy_int x = (case x of None \<Rightarrow> False | Some n \<Rightarrow> n \<noteq> 0)"

definition truthy_str :: "string option \<Rightarrow> bool" where
  "truthy_str x = (case x of None \<Rightarrow> False | Some s \<Rightarrow> s \<noteq> [])"

definition matches_filters :: "log_record \<Rightarrow> args \<Rightarrow> bool" where
  "matches_filters record args =
     (case record of (timestamp, ip, method, url, status, sz) \<Rightarrow>
        if truthy_str (args_method args) \<and> Some method \<noteq> args_method args then False
        else if (case args_status_filter args of
                   None \<Rightarrow> False
                 | Some (low, high) \<Rightarrow> \<not> (low \<le> status \<and> status \<le> high)) then False
        else if truthy_int (args_start args) \<and> timestamp < the (args_start args) then False
        else if truthy_int (args_end args) \<and> timestamp > the (args_end args) then False
        else True)"

section \<open>The aggregator\<close>

text \<open>
  A \<^verbatim>\<open>Counter\<close> is a dictionary, which keeps its keys in the order of their first
  insertion: an association list with distinct keys. \<open>counter_inc k c\<close> is
  \<^verbatim>\<open>c[k] += 1\<close>: a present key keeps its place, a new key goes to the end with count 1.
  \<open>counter_get c k\<close> is \<^verbatim>\<open>c.get(k, 0)\<close>.
\<close>

type_synonym 'k counter = "('k \<times> int) list"

fun counter_inc :: "'k \<Rightarrow> 'k counter \<Rightarrow> 'k counter" where
  "counter_inc k [] = [(k, 1)]"
| "counter_inc k ((k', n) # c) =
     (if k = k' then (k', n + 1) # c else (k', n) # counter_inc k c)"

definition counter_get :: "'k counter \<Rightarrow> 'k \<Rightarrow> int" where
  "counter_get c k = (case map_of c k of None \<Rightarrow> 0 | Some n \<Rightarrow> n)"

text \<open>
  \<^verbatim>\<open>sorted(c.items(), key=lambda x: x[1], reverse=True)\<close>: Python's sort is stable, also
  with \<^verbatim>\<open>reverse=True\<close>, and so is \<^const>\<open>sort_key\<close>.
\<close>

definition sorted_items :: "'k counter \<Rightarrow> 'k counter" where
  "sorted_items c = sort_key (\<lambda>(k, n). - n) c"

text \<open>
  \<^verbatim>\<open>c.most_common(n)\<close> is \<^verbatim>\<open>heapq.nlargest(n, c.items(), key=itemgetter(1))\<close>, which
  returns what \<^verbatim>\<open>sorted(c.items(), key=itemgetter(1), reverse=True)[:n]\<close> returns, and
  the empty list when \<open>n \<le> 0\<close>.
\<close>

definition most_common :: "int \<Rightarrow> 'k counter \<Rightarrow> 'k counter" where
  "most_common n c = take (nat n) (sorted_items c)"

record traffic_analyzer =
  top_n :: int
  total_requests :: int
  unique_ips :: "string set"
  total_data :: int
  ip_counter :: "string counter"
  url_counter :: "string counter"
  method_counter :: "string counter"
  success_count :: int
  client_error_count :: int
  server_error_count :: int
  success_size_sum :: int
  recent_ip_counts :: "string counter"
  requests_per_hour :: "int counter"

text \<open>\<^verbatim>\<open>TrafficAnalyzer.__init__\<close>.\<close>

definition TrafficAnalyzer :: "int \<Rightarrow> traffic_analyzer" where
  "TrafficAnalyzer n =
     \<lparr>top_n = n, total_requests = 0, unique_ips = {}, total_data = 0,
      ip_counter = [], url_counter = [], method_counter = [],
      success_count = 0, client_error_count = 0, server_error_count = 0,
      success_size_sum = 0, recent_ip_counts = [], requests_per_hour = []\<rparr>"

text \<open>The status branch of \<^verbatim>\<open>process_record\<close>: the \<^verbatim>\<open>if\<close>/\<^verbatim>\<open>elif\<close> chain.\<close>

definition count_status :: "int \<Rightarrow> int \<Rightarrow> traffic_analyzer \<Rightarrow> traffic_analyzer" where
  "count_status status sz self =
     (if 200 \<le> status \<and> status < 300 then
        self\<lparr>success_count := success_count self + 1,
             success_size_sum := success_size_sum self + sz\<rparr>
      else if 400 \<le> status \<and> status < 500 then
        self\<lparr>client_error_count := client_error_count self + 1\<rparr>
      else if 500 \<le> status \<and> status < 600 then
        self\<lparr>server_error_count := server_error_count self + 1\<rparr>
      else self)"

text \<open>
  The last branch of \<^verbatim>\<open>process_record\<close>. The condition is
  \<^verbatim>\<open>cutoff and timestamp >= cutoff\<close>, the truth value of \<^verbatim>\<open>cutoff\<close> first; the
  increment of \<^verbatim>\<open>recent_ip_counts\<close> stands after the inner \<^verbatim>\<open>if\<close>, not in it.
\<close>

definition hour_index_of :: "int \<Rightarrow> int \<Rightarrow> int" where
  "hour_index_of timestamp cutoff = (timestamp - cutoff) div 3600"

definition count_recent :: "int \<Rightarrow> string \<Rightarrow> int option \<Rightarrow> traffic_analyzer \<Rightarrow> traffic_analyzer" where
  "count_recent timestamp ip cutoff self =
     (if truthy_int cutoff \<and> timestamp \<ge> the cutoff then
        (let hour_index = hour_index_of timestamp (the cutoff);
             self1 = (if 0 \<le> hour_index \<and> hour_index < 24
                      then self\<lparr>requests_per_hour := counter_inc hour_index (requests_per_hour self)\<rparr>
                      else self)
         in self1\<lparr>recent_ip_counts := counter_inc ip (recent_ip_counts self1)\<rparr>)
      else self)"

definition process_record :: "traffic_analyzer \<Rightarrow> log_record \<Rightarrow> int option \<Rightarrow> traffic_analyzer" where
  "process_record self record cutoff =
     (case record of (timestamp, ip, method, url, status, sz) \<Rightarrow>
        count_recent timestamp ip cutoff
          (count_status status sz
             (self\<lparr>total_requests := total_requests self + 1,
                   unique_ips := insert ip (unique_ips self),
                   total_data := total_data self + sz,
                   ip_counter := counter_inc ip (ip_counter self),
                   url_counter := counter_inc url (url_counter self),
                   method_counter := counter_inc method (method_counter self)\<rparr>)))"

section \<open>The report\<close>

subsection \<open>Numbers as text\<close>

text \<open>
  \<^verbatim>\<open>f"{x:.2f}"\<close> where the value \<open>x\<close> is known exactly: the sign, the integer
  part, a point and two digits, the nearest hundredth with ties going to the even one.
\<close>

definition round_half_even :: "rat \<Rightarrow> int" where
  "round_half_even q =
     (let f = \<lfloor>q\<rfloor>; r = q - of_int f in
      if r < 1 / 2 then f
      else if r > 1 / 2 then f + 1
      else if even f then f else f + 1)"

definition format_2f :: "rat \<Rightarrow> string" where
  "format_2f q =
     (let m = nat (round_half_even (\<bar>q\<bar> * 100)) in
      (if q < 0 then ''-'' else []) @ show_nat (m div 100) @ ''.''
        @ [digit_char (m div 10), digit_char m])"

text \<open>
  A finite float (an IEEE double) is modelled by its exact value, a rational number.
  \<open>bit_length n\<close> is the number of binary digits of a positive integer, and
  \<open>round_double n\<close> is the double nearest to the integer \<open>n\<close>, ties going to the even
  mantissa: an integer of at most 53 bits is a double itself, a longer one keeps its 53
  leading bits, rounded.
\<close>

function bit_length :: "int \<Rightarrow> nat" where
  "bit_length n = (if n \<le> 0 then 0 else Suc (bit_length (n div 2)))"
  by pat_completeness auto
termination
  by (relation "measure nat") auto

declare bit_length.simps [simp del]

definition round_double :: "int \<Rightarrow> int" where
  "round_double n =
     (if \<bar>n\<bar> < 2 ^ 53 then n
      else (let e = bit_length \<bar>n\<bar> - 53 in
            sgn n * round_half_even (of_int \<bar>n\<bar> / 2 ^ e) * 2 ^ e))"

text \<open>
  \<^verbatim>\<open>float(n)\<close> for an integer, as the float formats of \<^verbatim>\<open>format\<close> apply it: the
  nearest double, and OverflowError when that is \<open>2 ^ 1024\<close> or more in size.
\<close>

definition float_of_int :: "int \<Rightarrow> pyerr + rat" where
  "float_of_int n =
     (if 2 ^ 1024 \<le> \<bar>round_double n\<bar> then Inl OverflowError
      else Inr (of_int (round_double n)))"

text \<open>
  \<^verbatim>\<open>n / 1024\<close> for an integer \<open>n\<close>: the double nearest to the quotient, and
  OverflowError when that is \<open>2 ^ 1024\<close> or more in size. Dividing by a power of two
  only moves the exponent, so the result is \<open>round_double n / 1024\<close>.
\<close>

definition int_truediv_1024 :: "int \<Rightarrow> pyerr + rat" where
  "int_truediv_1024 n =
     (if 2 ^ 1034 \<le> \<bar>round_double n\<bar> then Inl OverflowError
      else Inr (of_int (round_double n) / 1024))"

text \<open>
  The variable \<^verbatim>\<open>num\<close> of \<^verbatim>\<open>human_readable_bytes\<close> holds an integer at first and a
  float after the first \<^verbatim>\<open>num /= 1024\<close>. A float is divided only when it is 1024 or
  more, where the division by 1024 is exact.
\<close>

datatype pynum = PyInt int | PyFloat rat

definition num_less_1024 :: "pynum \<Rightarrow> bool" where
  "num_less_1024 num = (case num of PyInt n \<Rightarrow> n < 1024 | PyFloat x \<Rightarrow> x < 1024)"

definition num_div_1024 :: "pynum \<Rightarrow> pyerr + pynum" where
  "num_div_1024 num =
     (case num of
        PyInt n \<Rightarrow> bind_err (int_truediv_1024 n) (\<lambda>x. Inr (PyFloat x))
      | PyFloat x \<Rightarrow> Inr (PyFloat (x / 1024)))"

text \<open>\<^verbatim>\<open>f"{num:.2f}"\<close>: an integer is converted to a float first.\<close>

definition num_format_2f :: "pynum \<Rightarrow> pyerr + string" where
  "num_format_2f num =
     (case num of
        PyInt n \<Rightarrow> bind_err (float_of_int n) (\<lambda>x. Inr (format_2f x))
      | PyFloat x \<Rightarrow> Inr (format_2f x))"

text \<open>
  \<^verbatim>\<open>human_readable_bytes\<close>. The loop runs over the five units. \<open>Inr None\<close> is what
  Python returns when the loop ends without a \<^verbatim>\<open>return\<close>, and \<open>Inl\<close> an exception.
\<close>

fun human_readable_loop :: "pynum \<Rightarrow> string list \<Rightarrow> pyerr + string option" where
  "human_readable_loop num [] = Inr None"
| "human_readable_loop num (u # units) =
     (if num_less_1024 num \<or> u = ''TB''
      then bind_err (num_format_2f num) (\<lambda>s. Inr (Some (s @ '' '' @ u)))
      else bind_err (num_div_1024 num) (\<lambda>num'. human_readable_loop num' units))"

definition human_readable_bytes :: "int \<Rightarrow> pyerr + string option" where
  "human_readable_bytes num =
     human_readable_loop (PyInt num) [''B'', ''KB'', ''MB'', ''GB'', ''TB'']"

text \<open>\<^verbatim>\<open>str(x)\<close> inside an f-string, for a value that may be \<^verbatim>\<open>None\<close>.\<close>

definition str_opt :: "string option \<Rightarrow> string" where
  "str_opt x = (case x of None \<Rightarrow> ''None'' | Some s \<Rightarrow> s)"

text \<open>
  Three texts of the report come from floating-point arithmetic with rounding or from
  the \<^verbatim>\<open>datetime\<close> library. They are parameters of the model:
  \<^item> \<open>pct_text count total\<close> is \<^verbatim>\<open>f"{count / total * 100:.1f}"\<close>;
  \<^item> \<open>avg_text s n\<close> is \<^verbatim>\<open>f"{s / n:.2f}"\<close> for \<open>n \<noteq> 0\<close>;
  \<^item> \<open>hour_text ts\<close> is the text of
    \<^verbatim>\<open>datetime.fromtimestamp(ts, tz=timezone.utc).replace(minute=0, second=0,
    microsecond=0).strftime("%Y-%m-%dT%H:%MZ")\<close>.
\<close>

record platform =
  pct_text :: "int \<Rightarrow> int \<Rightarrow> string"
  avg_text :: "int \<Rightarrow> int \<Rightarrow> string"
  hour_text :: "int \<Rightarrow> string"

subsection \<open>The sections of the report\<close>

definition filter_settings :: "args \<Rightarrow> string list" where
  "filter_settings args =
     [''Filter settings:'',
      (if args_start args = None \<and> args_end args = None then ''- Time range: all time''
       else ''- Time range: ''
              @ (case args_start args of None \<Rightarrow> ''none'' | Some s \<Rightarrow> str_int s)
              @ '' - ''
              @ (case args_end args of None \<Rightarrow> ''none'' | Some e \<Rightarrow> str_int e)),
      ''- Method filter: ''
        @ (if truthy_str (args_method args) then the (args_method args) else ''all methods''),
      (case args_status_filter args of
         Some (low, high) \<Rightarrow>
           (if low \<noteq> high then ''- Status filter: '' @ str_int low @ ''-'' @ str_int high
            else ''- Status filter: '' @ str_int low)
       | None \<Rightarrow> ''- Status filter: all statuses''),
      []]"

definition basic_statistics :: "traffic_analyzer \<Rightarrow> pyerr + string list" where
  "basic_statistics self =
     bind_err (human_readable_bytes (total_data self)) (\<lambda>readable.
       Inr [''Basic statistics:'',
            ''Total requests: '' @ str_int (total_requests self),
            ''Unique IPs: '' @ show_nat (card (unique_ips self)),
            ''Total data transferred: '' @ str_int (total_data self)
              @ '' ('' @ str_opt readable @ '')'',
            []])"

definition request_distribution :: "platform \<Rightarrow> traffic_analyzer \<Rightarrow> string list" where
  "request_distribution pf self =
     [''Request distribution:'']
     @ (if total_requests self = 0 then [''(no data)'']
        else map (\<lambda>(method, count).
                    ''- '' @ method @ '': '' @ pct_text pf count (total_requests self) @ ''%'')
                 (sorted_items (method_counter self)))
     @ [[]]"

definition performance_metrics :: "platform \<Rightarrow> traffic_analyzer \<Rightarrow> string list" where
  "performance_metrics pf self =
     [''Performance metrics:'',
      ''- Successful requests (2xx): '' @ str_int (success_count self),
      ''- Client errors (4xx): '' @ str_int (client_error_count self),
      ''- Server errors (5xx): '' @ str_int (server_error_count self),
      ''- Average response size (2xx): ''
        @ (if success_count self \<noteq> 0
           then avg_text pf (success_size_sum self) (success_count self)
           else format_2f 0)
        @ '' bytes'',
      []]"

definition top_ips_section :: "traffic_analyzer \<Rightarrow> args \<Rightarrow> string list" where
  "top_ips_section self args =
     [''Top '' @ str_int (args_top args) @ '' active IPs:'']
     @ (let top_ips = most_common (args_top args) (ip_counter self) in
        if top_ips = [] then [''(no data)'']
        else map (\<lambda>(i, (ip, count)).
                    show_nat i @ ''. '' @ ip @ '': '' @ str_int count @ '' requests'')
                 (List.enumerate 1 top_ips))
     @ [[]]"

definition top_urls_section :: "traffic_analyzer \<Rightarrow> string list" where
  "top_urls_section self =
     [''Top 5 requested URLs:'']
     @ (let top_urls = most_common 5 (url_counter self) in
        if top_urls = [] then [''(no data)'']
        else map (\<lambda>(i, (url, count)). show_nat i @ ''. '' @ url @ '': '' @ str_int count)
                 (List.enumerate 1 top_urls))
     @ [[]]"

definition hour_data :: "platform \<Rightarrow> traffic_analyzer \<Rightarrow> int \<Rightarrow> string list" where
  "hour_data pf self cutoff =
     map (\<lambda>h. ''['' @ hour_text pf (cutoff + int h * 3600) @ '': ''
                @ str_int (counter_get (requests_per_hour self) (int h)) @ '']'')
         [0..<24]"

definition recent_activity :: "platform \<Rightarrow> traffic_analyzer \<Rightarrow> int option \<Rightarrow> string list" where
  "recent_activity pf self cutoff =
     [''Recent activity (last 24h):'']
     @ (case cutoff of
          None \<Rightarrow> [''- Unique IPs: 0'', ''- Requests per hour (last 24h): []'']
        | Some c \<Rightarrow>
            [''- Unique IPs: '' @ show_nat (length (recent_ip_counts self)),
             ''- Requests per hour (last 24h): '' @ join '', '' (hour_data pf self c)])"

text \<open>
  The list \<^verbatim>\<open>lines\<close> that \<^verbatim>\<open>generate_report\<close> builds, in its order. An exception of
  \<^verbatim>\<open>human_readable_bytes\<close> leaves \<^verbatim>\<open>generate_report\<close>.
\<close>

definition report_lines ::
  "platform \<Rightarrow> traffic_analyzer \<Rightarrow> args \<Rightarrow> int option \<Rightarrow> pyerr + string list" where
  "report_lines pf self args cutoff =
     bind_err (basic_statistics self) (\<lambda>basic.
       Inr ([''====== TRAFFIC ANALYSIS REPORT ======'' @ [CHR 0x0A]]
            @ filter_settings args
            @ basic
            @ request_distribution pf self
            @ performance_metrics pf self
            @ top_ips_section self args
            @ top_urls_section self
            @ recent_activity pf self cutoff))"

definition generate_report ::
  "platform \<Rightarrow> traffic_analyzer \<Rightarrow> args \<Rightarrow> int option \<Rightarrow> pyerr + string" where
  "generate_report pf self args cutoff =
     bind_err (report_lines pf self args cutoff) (\<lambda>lines. Inr (join [CHR 0x0A] lines))"

section \<open>The two passes\<close>

text \<open>
  The log file is the list of its lines, as the iteration over the open file yields
  them; both passes read the same lines. An exception of the parser would leave the
  loop, so the loops return \<open>pyerr + _\<close>.
\<close>

fun find_max_loop :: "args \<Rightarrow> string list \<Rightarrow> int option \<Rightarrow> pyerr + int option" where
  "find_max_loop args [] max_ts = Inr max_ts"
| "find_max_loop args (line # rest) max_ts =
     (case parse_log_line line of
        Inl e \<Rightarrow> Inl e
      | Inr None \<Rightarrow> find_max_loop args rest max_ts
      | Inr (Some parsed) \<Rightarrow>
          if matches_filters parsed args then
            (let ts = timestamp_of parsed in
             if max_ts = None \<or> ts > the max_ts then find_max_loop args rest (Some ts)
             else find_max_loop args rest max_ts)
          else find_max_loop args rest max_ts)"

definition find_max_timestamp :: "string list \<Rightarrow> args \<Rightarrow> pyerr + int option" where
  "find_max_timestamp file args = find_max_loop args file None"

text \<open>
  \<^verbatim>\<open>process_file\<close>: \<open>line_no\<close> counts from 1; the second component collects what
  \<^verbatim>\<open>eprint\<close> writes.
\<close>

definition invalid_format_warning :: "nat \<Rightarrow> string" where
  "invalid_format_warning line_no = ''Warning: invalid format at line '' @ show_nat line_no"

fun process_loop ::
  "args \<Rightarrow> int option \<Rightarrow> nat \<Rightarrow> string list \<Rightarrow> traffic_analyzer \<times> string list
     \<Rightarrow> pyerr + traffic_analyzer \<times> string list" where
  "process_loop args cutoff line_no [] st = Inr st"
| "process_loop args cutoff line_no (line # rest) (analyzer, warnings) =
     (case parse_log_line line of
        Inl e \<Rightarrow> Inl e
      | Inr None \<Rightarrow>
          process_loop args cutoff (Suc line_no) rest
            (analyzer, warnings @ [invalid_format_warning line_no])
      | Inr (Some parsed) \<Rightarrow>
          if matches_filters parsed args
          then process_loop args cutoff (Suc line_no) rest
                 (process_record analyzer parsed cutoff, warnings)
          else process_loop args cutoff (Suc line_no) rest (analyzer, warnings))"

definition process_file ::
  "string list \<Rightarrow> args \<Rightarrow> int option \<Rightarrow> pyerr + traffic_analyzer \<times> string list" where
  "process_file file args cutoff =
     process_loop args cutoff 1 file (TrafficAnalyzer (args_top args), [])"

text \<open>
  \<^verbatim>\<open>main\<close> after \<^verbatim>\<open>parse_args\<close>: what the process prints on standard output and on
  the diagnostic stream, and its exit status. \<open>Inl e\<close> is an exception that leaves
  \<^verbatim>\<open>main\<close>; what was printed before it is not recorded.
\<close>

record run =
  stdout :: "string list"
  stderr :: "string list"
  exit_status :: int

definition main :: "platform \<Rightarrow> args \<Rightarrow> string list \<Rightarrow> pyerr + run" where
  "main pf args file =
     bind_err (find_max_timestamp file args) (\<lambda>max_ts.
       case max_ts of
         None \<Rightarrow>
           bind_err (generate_report pf (TrafficAnalyzer (args_top args)) args None)
             (\<lambda>report.
                Inr \<lparr>stdout = [report],
                     stderr = [''No valid records matched the filters.''],
                     exit_status = 0\<rparr>)
       | Some m \<Rightarrow>
           (let cutoff = m - 86400 in
            bind_err (process_file file args (Some cutoff)) (\<lambda>(analyzer, warnings).
              bind_err (generate_report pf analyzer args (Some cutoff)) (\<lambda>report.
                Inr \<lparr>stdout = [report], stderr = warnings, exit_status = 0\<rparr>))))"

section \<open>Notions used in the statements\<close>

text \<open>
  The parsed records of a file in line order, and those among them that pass the
  filters: what both passes of the driver iterate over.
\<close>

definition parsed_record :: "string \<Rightarrow> log_record option" where
  "parsed_record line = (case parse_log_line line of Inl e \<Rightarrow> None | Inr p \<Rightarrow> p)"

definition matching_records :: "args \<Rightarrow> string list \<Rightarrow> log_record list" where
  "matching_records args file =
     filter (\<lambda>r. matches_filters r args) (List.map_filter parsed_record file)"

text \<open>\<^verbatim>\<open>sum(c.values())\<close>.\<close>

definition counter_total :: "'k counter \<Rightarrow> int" where
  "counter_total c = sum_list (map snd c)"

text \<open>A run of \<^verbatim>\<open>process_record\<close> calls, each with its own cutoff argument.\<close>

definition process_calls ::
  "traffic_analyzer \<Rightarrow> (log_record \<times> int option) list \<Rightarrow> traffic_analyzer" where
  "process_calls self calls = foldl (\<lambda>a (r, cutoff). process_record a r cutoff) self calls"

text \<open>The keys of a list in the order of their first occurrence.\<close>

fun first_seen :: "'k list \<Rightarrow> 'k list" where
  "first_seen [] = []"
| "first_seen (k # ks) = k # filter (\<lambda>x. x \<noteq> k) (first_seen ks)"

text \<open>
  The arguments after \<^verbatim>\<open>parse_args\<close> when only the log file is given: no filter, and
  the default \<^verbatim>\<open>--top\<close> of 3.
\<close>

definition default_args :: args where
  "default_args =
     \<lparr>args_method = None, args_status_filter = None, args_start = None, args_end = None,
      args_top = 3\<rparr>"

text \<open>The warnings of the second pass for the lines of a file numbered from \<open>n\<close>.\<close>

fun invalid_warnings :: "nat \<Rightarrow> string list \<Rightarrow> string list" where
  "invalid_warnings n [] = []"
| "invalid_warnings n (line # rest) =
     (if parsed_record line = None then [invalid_format_warning n] else [])
     @ invalid_warnings (Suc n) rest"

text \<open>
  Two aggregator states hold the same statistics when all scalar counters and the set of
  IPs agree and every counter is the same function from keys to counts.
\<close>

definition same_statistics :: "traffic_analyzer \<Rightarrow> traffic_analyzer \<Rightarrow> bool" where
  "same_statistics a b =
     (top_n a = top_n b \<and> total_requests a = total_requests b
      \<and> unique_ips a = unique_ips b \<and> total_data a = total_data b
      \<and> map_of (ip_counter a) = map_of (ip_counter b)
      \<and> map_of (url_counter a) = map_of (url_counter b)
      \<and> map_of (method_counter a) = map_of (method_counter b)
      \<and> success_count a = success_count b
      \<and> client_error_count a = client_error_count b
      \<and> server_error_count a = server_error_count b
      \<and> success_size_sum a = success_size_sum b
      \<and> map_of (recent_ip_counts a) = map_of (recent_ip_counts b)
      \<and> map_of (requests_per_hour a) = map_of (requests_per_hour b))"

section \<open>The aggregator, field by field\<close>

lemma count_status_fields:
  "top_n (count_status st sz self) = top_n self"
  "total_requests (count_status st sz self) = total_requests self"
  "unique_ips (count_status st sz self) = unique_ips self"
  "total_data (count_status st sz self) = total_data self"
  "ip_counter (count_status st sz self) = ip_counter self"
  "url_counter (count_status st sz self) = url_counter self"
  "method_counter (count_status st sz self) = method_counter self"
  "recent_ip_counts (count_status st sz self) = recent_ip_counts self"
  "requests_per_hour (count_status st sz self) = requests_per_hour self"
  "success_count (count_status st sz self) =
     success_count self + (if 200 \<le> st \<and> st < 300 then 1 else 0)"
  "success_size_sum (count_status st sz self) =
     success_size_sum self + (if 200 \<le> st \<and> st < 300 then sz else 0)"
  "client_error_count (count_status st sz self) =
     client_error_count self + (if 400 \<le> st \<and> st < 500 then 1 else 0)"
  "server_error_count (count_status st sz self) =
     server_error_count self + (if 500 \<le> st \<and> st < 600 then 1 else 0)"
  by (simp_all add: count_status_def)

lemma count_recent_fields:
  "top_n (count_recent ts ip cutoff self) = top_n self"
  "total_requests (count_recent ts ip cutoff self) = total_requests self"
  "unique_ips (count_recent ts ip cutoff self) = unique_ips self"
  "total_data (count_recent ts ip cutoff self) = total_data self"
  "ip_counter (count_recent ts ip cutoff self) = ip_counter self"
  "url_counter (count_recent ts ip cutoff self) = url_counter self"
  "method_counter (count_recent ts ip cutoff self) = method_counter self"
  "success_count (count_recent ts ip cutoff self) = success_count self"
  "success_size_sum (count_recent ts ip cutoff self) = success_size_sum self"
  "client_error_count (count_recent ts ip cutoff self) = client_error_count self"
  "server_error_count (count_recent ts ip cutoff self) = server_error_count self"
  "requests_per_hour (count_recent ts ip cutoff self) =
     (if truthy_int cutoff \<and> ts \<ge> the cutoff
         \<and> 0 \<le> hour_index_of ts (the cutoff) \<and> hour_index_of ts (the cutoff) < 24
      then counter_inc (hour_index_of ts (the cutoff)) (requests_per_hour self)
      else requests_per_hour self)"
  "recent_ip_counts (count_recent ts ip cutoff self) =
     (if truthy_int cutoff \<and> ts \<ge> the cutoff
      then counter_inc ip (recent_ip_counts self)
      else recent_ip_counts self)"
  by (simp_all add: count_recent_def Let_def)

lemma process_record_fields:
  "top_n (process_record self r cutoff) = top_n self"
  "total_requests (process_record self r cutoff) = total_requests self + 1"
  "unique_ips (process_record self r cutoff) = insert (ip_of r) (unique_ips self)"
  "total_data (process_record self r cutoff) = total_data self + size_of r"
  "ip_counter (process_record self r cutoff) = counter_inc (ip_of r) (ip_counter self)"
  "url_counter (process_record self r cutoff) = counter_inc (url_of r) (url_counter self)"
  "method_counter (process_record self r cutoff) = counter_inc (method_of r) (method_counter self)"
  "success_count (process_record self r cutoff) =
     success_count self + (if 200 \<le> status_of r \<and> status_of r < 300 then 1 else 0)"
  "success_size_sum (process_record self r cutoff) =
     success_size_sum self + (if 200 \<le> status_of r \<and> status_of r < 300 then size_of r else 0)"
  "client_error_count (process_record self r cutoff) =
     client_error_count self + (if 400 \<le> status_of r \<and> status_of r < 500 then 1 else 0)"
  "server_error_count (process_record self r cutoff) =
     server_error_count self + (if 500 \<le> status_of r \<and> status_of r < 600 then 1 else 0)"
  "requests_per_hour (process_record self r cutoff) =
     (if truthy_int cutoff \<and> timestamp_of r \<ge> the cutoff
         \<and> 0 \<le> hour_index_of (timestamp_of r) (the cutoff)
         \<and> hour_index_of (timestamp_of r) (the cutoff) < 24
      then counter_inc (hour_index_of (timestamp_of r) (the cutoff)) (requests_per_hour self)
      else requests_per_hour self)"
  "recent_ip_counts (process_record self r cutoff) =
     (if truthy_int cutoff \<and> timestamp_of r \<ge> the cutoff
      then counter_inc (ip_of r) (recent_ip_counts self)
      else recent_ip_counts self)"
  by (cases r; simp add: process_record_def count_recent_fields count_status_fields
      timestamp_of_def ip_of_def url_of_def method_of_def status_of_def size_of_def)+

section \<open>Rounding an integer to a float\<close>

lemma bit_length_bounds:
  "0 < n \<Longrightarrow> 2 ^ (bit_length n - 1) \<le> n \<and> n < 2 ^ bit_length n"
proof (induction n rule: bit_length.induct)
  case (1 n)
  show ?case
  proof (cases "n div 2 \<le> 0")
    case True
    with "1.prems" have "n = 1" by linarith
    then show ?thesis
      by (simp add: bit_length.simps [of 1] bit_length.simps [of 0])
  next
    case False
    then have pos: "0 < n div 2" by simp
    have ih: "2 ^ (bit_length (n div 2) - 1) \<le> n div 2 \<and> n div 2 < 2 ^ bit_length (n div 2)"
      using "1.IH" "1.prems" pos by simp
    have b: "bit_length n = Suc (bit_length (n div 2))"
      using "1.prems" by (simp add: bit_length.simps [of n])
    have bl: "0 < bit_length (n div 2)"
      using pos by (simp add: bit_length.simps [of "n div 2"])
    then obtain m where m: "bit_length (n div 2) = Suc m"
      by (cases "bit_length (n div 2)") simp_all
    have lo: "2 * (n div 2) \<le> n" and hi: "n < 2 * (n div 2) + 2"
      by linarith+
    have "(2::int) ^ m \<le> n div 2" and "n div 2 < 2 * 2 ^ m"
      using ih unfolding m by simp_all
    then have "2 * (2::int) ^ m \<le> n \<and> n < 2 * (2 * 2 ^ m)"
      using lo hi by linarith
    then show ?thesis
      unfolding b m by simp
  qed
qed

lemma round_double_id: "\<bar>n\<bar> < 2 ^ 53 \<Longrightarrow> round_double n = n"
  by (simp add: round_double_def)

lemma round_half_even_ge_floor: "\<lfloor>q\<rfloor> \<le> round_half_even q"
  by (simp add: round_half_even_def Let_def)

lemma round_double_ge:
  assumes k: "53 \<le> k" and n: "2 ^ k \<le> n"
  shows "2 ^ k \<le> round_double n"
proof -
  have k53: "(2::int) ^ 53 \<le> 2 ^ k"
    using k by (intro power_increasing) simp_all
  then have big: "\<not> \<bar>n\<bar> < 2 ^ 53" and pos: "0 < n" and abs: "\<bar>n\<bar> = n"
    using n by simp_all
  let ?b = "bit_length n"
  have bnd: "2 ^ (?b - 1) \<le> n" "n < 2 ^ ?b"
    using bit_length_bounds [OF pos] by simp_all
  have "(2::int) ^ k < 2 ^ ?b"
    using n bnd(2) by linarith
  then have kb: "k < ?b"
    by (simp add: power_strict_increasing_iff)
  define e where "e = ?b - 53"
  have e: "?b = 53 + e" and e1: "k \<le> 52 + e"
    using kb k unfolding e_def by linarith+
  have "(2::rat) ^ 52 * 2 ^ e \<le> of_int n"
  proof -
    have "(2::int) ^ (52 + e) \<le> n"
      using bnd(1) unfolding e by simp
    then have "of_int ((2::int) ^ (52 + e)) \<le> (of_int n :: rat)"
      by (simp only: of_int_le_iff)
    then show ?thesis
      by (simp add: power_add)
  qed
  then have "(2::rat) ^ 52 \<le> of_int n / 2 ^ e"
    by (simp add: pos_le_divide_eq)
  then have "of_int ((2::int) ^ 52) \<le> (of_int n / 2 ^ e :: rat)"
    by simp
  then have "(2::int) ^ 52 \<le> \<lfloor>(of_int n / 2 ^ e :: rat)\<rfloor>"
    by (simp only: le_floor_iff)
  then have r: "(2::int) ^ 52 \<le> round_half_even (of_int n / 2 ^ e)"
    using round_half_even_ge_floor [of "of_int n / 2 ^ e"] by linarith
  have "(2::int) ^ k \<le> 2 ^ (52 + e)"
    using e1 by (intro power_increasing) simp_all
  also have "\<dots> = 2 ^ 52 * 2 ^ e"
    by (simp add: power_add)
  also have "\<dots> \<le> round_half_even (of_int n / 2 ^ e) * 2 ^ e"
    using r by (intro mult_right_mono) simp_all
  finally have "2 ^ k \<le> round_half_even (of_int n / 2 ^ e) * 2 ^ e" .
  moreover have "round_double n = round_half_even (of_int n / 2 ^ e) * 2 ^ e"
    using big pos abs by (simp add: round_double_def e)
  ultimately show ?thesis by simp
qed

lemma round_double_threshold:
  assumes "t \<le> 2 ^ 53" and "0 \<le> n"
  shows "(round_double n < t) = (n < t)"
proof (cases "n < 2 ^ 53")
  case True
  then have "round_double n = n"
    using assms(2) by (simp add: round_double_id)
  then show ?thesis by simp
next
  case False
  then have "2 ^ 53 \<le> round_double n"
    by (intro round_double_ge) simp_all
  with False assms(1) show ?thesis by linarith
qed

lemma rat_quotient_less:
  fixes r :: int
  shows "((of_int r :: rat) / 1024 < 1024) = (r < 2 ^ 20)"
    and "((of_int r :: rat) / 1024 / 1024 < 1024) = (r < 2 ^ 30)"
    and "((of_int r :: rat) / 1024 / 1024 / 1024 < 1024) = (r < 2 ^ 40)"
proof -
  have "((of_int r :: rat) / 1024 < 1024) = ((of_int r :: rat) < of_int (2 ^ 20))"
    by (simp add: field_simps)
  then show "((of_int r :: rat) / 1024 < 1024) = (r < 2 ^ 20)"
    by (simp only: of_int_less_iff)
  have "((of_int r :: rat) / 1024 / 1024 < 1024) = ((of_int r :: rat) < of_int (2 ^ 30))"
    by (simp add: field_simps)
  then show "((of_int r :: rat) / 1024 / 1024 < 1024) = (r < 2 ^ 30)"
    by (simp only: of_int_less_iff)
  have "((of_int r :: rat) / 1024 / 1024 / 1024 < 1024) = ((of_int r :: rat) < of_int (2 ^ 40))"
    by (simp add: field_simps)
  then show "((of_int r :: rat) / 1024 / 1024 / 1024 < 1024) = (r < 2 ^ 40)"
    by (simp only: of_int_less_iff)
qed

lemma human_readable_bytes_cases:
  "human_readable_bytes n =
     (if n < 1024 then
        (if 2 ^ 1024 \<le> \<bar>round_double n\<bar> then Inl OverflowError
         else Inr (Some (format_2f (of_int (round_double n)) @ '' B'')))
      else if 2 ^ 1034 \<le> round_double n then Inl OverflowError
      else Inr (Some
        (if n < 1024 ^ 2 then format_2f (of_int (round_double n) / 1024) @ '' KB''
         else if n < 1024 ^ 3 then format_2f (of_int (round_double n) / 1024 ^ 2) @ '' MB''
         else if n < 1024 ^ 4 then format_2f (of_int (round_double n) / 1024 ^ 3) @ '' GB''
         else format_2f (of_int (round_double n) / 1024 ^ 4) @ '' TB'')))"
proof (cases "n < 1024")
  case True
  then show ?thesis
    by (simp add: human_readable_bytes_def num_less_1024_def num_format_2f_def
        float_of_int_def bind_err_def)
next
  case False
  then have n0: "0 \<le> n" by simp
  let ?r = "round_double n"
  have r0: "0 \<le> ?r"
    using round_double_threshold [of 0 n] n0 by simp
  then have ab: "\<bar>?r\<bar> = ?r" by simp
  have t: "(?r < 2 ^ 20) = (n < 1024 ^ 2)" "(?r < 2 ^ 30) = (n < 1024 ^ 3)"
    "(?r < 2 ^ 40) = (n < 1024 ^ 4)"
    using round_double_threshold [of "2 ^ 20" n] round_double_threshold [of "2 ^ 30" n]
      round_double_threshold [of "2 ^ 40" n] n0 by simp_all
  have e: "(of_int ?r :: rat) / 1024 / 1024 = of_int ?r / 1024 ^ 2"
    "(of_int ?r :: rat) / 1024 / 1024 / 1024 = of_int ?r / 1024 ^ 3"
    "(of_int ?r :: rat) / 1024 / 1024 / 1024 / 1024 = of_int ?r / 1024 ^ 4"
    by simp_all
  show ?thesis
  proof (cases "2 ^ 1034 \<le> ?r")
    case True
    with False show ?thesis
      by (simp add: human_readable_bytes_def num_less_1024_def num_div_1024_def
          int_truediv_1024_def bind_err_def ab)
  next
    case ok: False
    have "human_readable_bytes n
            = human_readable_loop (PyFloat (of_int ?r / 1024)) [''KB'', ''MB'', ''GB'', ''TB'']"
      using False ok
      by (simp add: human_readable_bytes_def num_less_1024_def num_div_1024_def
          int_truediv_1024_def bind_err_def ab)
    also have "\<dots> = Inr (Some
        (if n < 1024 ^ 2 then format_2f (of_int ?r / 1024) @ '' KB''
         else if n < 1024 ^ 3 then format_2f (of_int ?r / 1024 ^ 2) @ '' MB''
         else if n < 1024 ^ 4 then format_2f (of_int ?r / 1024 ^ 3) @ '' GB''
         else format_2f (of_int ?r / 1024 ^ 4) @ '' TB''))"
      unfolding human_readable_loop.simps num_less_1024_def num_div_1024_def num_format_2f_def
        bind_err_def pynum.case sum.case rat_quotient_less e
      using t by simp
    finally show ?thesis
      using False ok by simp
  qed
qed

lemma floor_numeral_divide:
  "\<lfloor>(numeral a / numeral b :: rat)\<rfloor> = numeral a div numeral b"
  using floor_divide_of_int_eq [of "numeral a" "numeral b", where ?'a = rat] by simp

lemma round_double_tie: "round_double 9007336693694465 = 9007336693694464"
  by code_simp

lemma format_2f_tie: "format_2f (65537 / 8) = ''8192.12''"
  by (simp add: format_2f_def round_half_even_def Let_def show_nat.simps digit_char_def
      floor_numeral_divide)

lemma human_readable_bytes_tie:
  "human_readable_bytes 9007336693694465 = Inr (Some ''8192.12 TB'')"
proof -
  have "human_readable_bytes 9007336693694465
          = Inr (Some (format_2f (of_int (round_double 9007336693694465) / 1024 ^ 4) @ '' TB''))"
    by (subst human_readable_bytes_cases) (simp add: round_double_tie)
  also have "of_int (round_double 9007336693694465) / 1024 ^ 4 = (65537 / 8 :: rat)"
    by (simp add: round_double_tie)
  finally show ?thesis
    by (simp add: format_2f_tie)
qed

lemma human_readable_bytes_overflow:
  "human_readable_bytes (2 ^ 1034) = Inl OverflowError"
proof -
  have "(2::int) ^ 1034 \<le> round_double (2 ^ 1034)"
    by (intro round_double_ge) simp_all
  moreover have "\<not> (2::int) ^ 1034 < 1024"
    by simp
  ultimately show ?thesis
    by (simp only: human_readable_bytes_cases if_True if_False)
qed

lemma human_readable_bytes_small:
  "human_readable_bytes 0 = Inr (Some ''0.00 B'')"
  "human_readable_bytes 500 = Inr (Some ''500.00 B'')"
  "human_readable_bytes 1024 = Inr (Some ''1.00 KB'')"
  "human_readable_bytes 1536 = Inr (Some ''1.50 KB'')"
  by (simp_all add: human_readable_bytes_cases round_double_id format_2f_def
      round_half_even_def Let_def show_nat.simps digit_char_def floor_numeral_divide)

section \<open>The parser never raises, and the loops in closed form\<close>

lemma parse_fields_six:
  assumes "length parts = 6"
  shows "parse_fields parts =
     (case (int_literal (parts ! 0), int_literal (parts ! 4), int_literal (parts ! 5)) of
        (Some t, Some st, Some sz) \<Rightarrow>
          Inr (t, parts ! 1, upper (parts ! 2), parts ! 3, st, sz)
      | _ \<Rightarrow> Inl ValueError)"
  using assms
  by (simp add: parse_fields_def index_def bind_err_def py_int_def split: option.splits)

lemma parse_log_line_Inr: "parse_log_line line = Inr (parsed_record line)"
proof (cases "length (split (strip line)) = 6")
  case True
  then show ?thesis
    by (simp add: parsed_record_def parse_log_line_def parse_fields_six Let_def
        split: option.splits)
next
  case False
  then show ?thesis
    by (simp add: parsed_record_def parse_log_line_def)
qed

lemma parsed_record_cases:
  "parsed_record line =
     (let parts = split (strip line) in
      if length parts = 6 then
        (case (int_literal (parts ! 0), int_literal (parts ! 4), int_literal (parts ! 5)) of
           (Some t, Some st, Some sz) \<Rightarrow>
             Some (t, parts ! 1, upper (parts ! 2), parts ! 3, st, sz)
         | _ \<Rightarrow> None)
      else None)"
  by (simp add: parsed_record_def parse_log_line_def parse_fields_six Let_def
      split: option.splits)

lemma find_max_loop_closed:
  "find_max_loop args lns m =
     Inr (foldl (\<lambda>m ts. if m = None \<or> ts > the m then Some ts else m) m
            (map timestamp_of (matching_records args lns)))"
proof (induction lns arbitrary: m)
  case Nil
  then show ?case by (simp add: matching_records_def map_filter_simps)
next
  case (Cons line lns)
  show ?case
    by (cases "parsed_record line")
       (simp_all add: parse_log_line_Inr matching_records_def map_filter_simps Cons.IH Let_def)
qed

lemma matching_records_Cons:
  "matching_records args (line # lns) =
     (case parsed_record line of
        None \<Rightarrow> matching_records args lns
      | Some r \<Rightarrow> if matches_filters r args then r # matching_records args lns
                  else matching_records args lns)"
  by (simp add: matching_records_def map_filter_simps split: option.splits)

lemma process_loop_closed:
  "process_loop args cutoff n lns (a, w) =
     Inr (foldl (\<lambda>a r. process_record a r cutoff) a (matching_records args lns),
          w @ invalid_warnings n lns)"
proof (induction lns arbitrary: n a w)
  case Nil
  then show ?case by (simp add: matching_records_def map_filter_simps)
next
  case (Cons line lns)
  show ?case
  proof (cases "parsed_record line")
    case None
    then show ?thesis
      by (simp add: parse_log_line_Inr matching_records_Cons Cons.IH)
  next
    case (Some r)
    then show ?thesis
      by (simp add: parse_log_line_Inr matching_records_Cons Cons.IH)
  qed
qed

lemma matches_default_args: "matches_filters r default_args"
  by (cases r) (simp add: matches_filters_def default_args_def truthy_int_def truthy_str_def)

section \<open>The report of an empty aggregator\<close>

lemma find_max_timestamp_closed:
  "find_max_timestamp lns args =
     Inr (foldl (\<lambda>m ts. if m = None \<or> ts > the m then Some ts else m) None
            (map timestamp_of (matching_records args lns)))"
  by (simp add: find_max_timestamp_def find_max_loop_closed)

lemma str_int_small: "str_int 0 = ''0''" "str_int 1 = ''1''" "str_int 3 = ''3''"
  "show_nat 0 = ''0''" "show_nat 1 = ''1''"
  by (simp_all add: str_int_def show_nat.simps digit_char_def)

lemma format_2f_zero: "format_2f 0 = ''0.00''"
  by code_simp

lemma empty_report_lines:
  "report_lines pf (TrafficAnalyzer n) args None =
     Inr ([''====== TRAFFIC ANALYSIS REPORT ======'' @ [CHR 0x0A]]
     @ filter_settings args
     @ [''Basic statistics:'',
        ''Total requests: 0'',
        ''Unique IPs: 0'',
        ''Total data transferred: 0 (0.00 B)'',
        [],
        ''Request distribution:'',
        ''(no data)'',
        [],
        ''Performance metrics:'',
        ''- Successful requests (2xx): 0'',
        ''- Client errors (4xx): 0'',
        ''- Server errors (5xx): 0'',
        ''- Average response size (2xx): 0.00 bytes'',
        [],
        ''Top '' @ str_int (args_top args) @ '' active IPs:'',
        ''(no data)'',
        [],
        ''Top 5 requested URLs:'',
        ''(no data)'',
        [],
        ''Recent activity (last 24h):'',
        ''- Unique IPs: 0'',
        ''- Requests per hour (last 24h): []''])"
  by (simp add: report_lines_def bind_err_def basic_statistics_def request_distribution_def
      performance_metrics_def top_ips_section_def top_urls_section_def recent_activity_def
      TrafficAnalyzer_def most_common_def sorted_items_def str_int_small format_2f_zero
      human_readable_bytes_small str_opt_def)

section \<open>The scan returns the largest matching timestamp\<close>

lemma Max_insert_max:
  fixes a x :: int
  assumes "finite S"
  shows "Max (insert (max a x) S) = Max (insert a (insert x S))"
proof (cases "S = {}")
  case True
  then show ?thesis by simp
next
  case False
  with assms show ?thesis by (simp add: max.assoc)
qed

lemma max_step_Some:
  "foldl (\<lambda>m ts. if m = None \<or> ts > the m then Some ts else m) (Some (a::int)) xs
     = Some (Max (insert a (set xs)))"
proof (induction xs arbitrary: a)
  case Nil
  then show ?case by simp
next
  case (Cons x xs)
  have "(if Some a = None \<or> x > the (Some a) then Some x else Some a) = Some (max a x)"
    by (simp add: max_def)
  then have "foldl (\<lambda>m ts. if m = None \<or> ts > the m then Some ts else m) (Some a) (x # xs)
      = foldl (\<lambda>m ts. if m = None \<or> ts > the m then Some ts else m) (Some (max a x)) xs"
    by simp
  also have "\<dots> = Some (Max (insert (max a x) (set xs)))"
    by (rule Cons.IH)
  also have "\<dots> = Some (Max (insert a (set (x # xs))))"
    by (simp add: Max_insert_max)
  finally show ?case .
qed

lemma max_step_None:
  "foldl (\<lambda>m ts. if m = None \<or> ts > the m then Some ts else m) None (xs :: int list)
     = (if xs = [] then None else Some (Max (set xs)))"
  by (cases xs) (simp_all add: max_step_Some)

lemma find_max_timestamp_Max:
  "find_max_timestamp lns args =
     Inr (if matching_records args lns = [] then None
          else Some (Max (set (map timestamp_of (matching_records args lns)))))"
  by (simp add: find_max_timestamp_closed max_step_None)

section \<open>A log of one line\<close>

lemma single_line_parsed:
  "parsed_record ''1000 10.0.0.1 GET /a 200 500''
     = Some (1000, ''10.0.0.1'', ''GET'', ''/a'', 200, 500)"
  by code_simp










section \<open>The filter predicate and a bound of zero\<close>

text \<open>
  Claim C2. The claim: a configured start or end bound of 0 counts as configured, so with
  start = 0 a record with a timestamp below 0 does not match, and with end = 0 a record
  with a timestamp above 0 does not match. In the code the conditions are
  \<^verbatim>\<open>args.start and ...\<close> and \<^verbatim>\<open>args.end and ...\<close>, and the integer 0 is false: a bound
  of 0 filters exactly as an absent bound does. With \<^verbatim>\<open>--end 0\<close> the record of the line
  \<^verbatim>\<open>5 10.0.0.1 GET /a 200 500\<close> matches, and with \<^verbatim>\<open>--start 0\<close> a record with
  timestamp -1 matches.
\<close>

theorem matches_filters_zero_bound_ignored:
  "matches_filters r (args\<lparr>args_start := Some 0\<rparr>) = matches_filters r (args\<lparr>args_start := None\<rparr>)
   \<and> matches_filters r (args\<lparr>args_end := Some 0\<rparr>) = matches_filters r (args\<lparr>args_end := None\<rparr>)
   \<and> parse_log_line ''5 10.0.0.1 GET /a 200 500''
       = Inr (Some (5, ''10.0.0.1'', ''GET'', ''/a'', 200, 500))
   \<and> matches_filters (5, ''10.0.0.1'', ''GET'', ''/a'', 200, 500)
         \<lparr>args_method = None, args_status_filter = None, args_start = None,
          args_end = Some 0, args_top = 3\<rparr>
   \<and> matches_filters (- 1, ''10.0.0.1'', ''GET'', ''/a'', 200, 500)
         \<lparr>args_method = None, args_status_filter = None, args_start = Some 0,
          args_end = None, args_top = 3\<rparr>"
proof -
  have "matches_filters r (args\<lparr>args_start := Some 0\<rparr>) = matches_filters r (args\<lparr>args_start := None\<rparr>)"
    and "matches_filters r (args\<lparr>args_end := Some 0\<rparr>) = matches_filters r (args\<lparr>args_end := None\<rparr>)"
    by (cases r; simp add: matches_filters_def truthy_int_def truthy_str_def)+
  moreover have "parse_log_line ''5 10.0.0.1 GET /a 200 500''
       = Inr (Some (5, ''10.0.0.1'', ''GET'', ''/a'', 200, 500))"
    by code_simp
  moreover have "matches_filters (5, ''10.0.0.1'', ''GET'', ''/a'', 200, 500)
         \<lparr>args_method = None, args_status_filter = None, args_start = None,
          args_end = Some 0, args_top = 3\<rparr>"
    and "matches_filters (- 1, ''10.0.0.1'', ''GET'', ''/a'', 200, 500)
         \<lparr>args_method = None, args_status_filter = None, args_start = Some 0,
          args_end = None, args_top = 3\<rparr>"
    by (simp_all add: matches_filters_def truthy_int_def truthy_str_def)
  ultimately show ?thesis by simp
qed

section \<open>The recent window and a cutoff of zero\<close>

text \<open>
  Claim C4. The claim: for every defined cutoff, also 0 and negative ones, the recent
  window is applied, so a record with \<open>timestamp \<ge> cutoff\<close> and an hour index in
  \<open>0..23\<close> updates its bucket of \<^verbatim>\<open>requests_per_hour\<close> and \<^verbatim>\<open>recent_ip_counts\<close>. In the
  code the condition is \<^verbatim>\<open>cutoff and timestamp >= cutoff\<close>, and the integer 0 is false:
  with cutoff 0 no record updates either structure. The driver derives the cutoff 0 from
  a largest matching timestamp of 86400; the record with timestamp 3600 then has hour
  index 1 and is counted in no bucket.
\<close>

theorem process_record_zero_cutoff_skips_window:
  "requests_per_hour (process_record self r (Some 0)) = requests_per_hour self
   \<and> recent_ip_counts (process_record self r (Some 0)) = recent_ip_counts self
   \<and> find_max_timestamp [''86400 10.0.0.1 GET /a 200 500'', ''3600 10.0.0.2 GET /b 200 1'']
        default_args = Inr (Some 86400)
   \<and> hour_index_of 3600 (86400 - 86400) = 1
   \<and> (case process_file [''86400 10.0.0.1 GET /a 200 500'', ''3600 10.0.0.2 GET /b 200 1'']
              default_args (Some (86400 - 86400)) of
         Inl e \<Rightarrow> False
       | Inr (analyzer, warnings) \<Rightarrow>
           total_requests analyzer = 2 \<and> requests_per_hour analyzer = []
           \<and> recent_ip_counts analyzer = [])"
proof -
  have p1: "parsed_record ''86400 10.0.0.1 GET /a 200 500''
              = Some (86400, ''10.0.0.1'', ''GET'', ''/a'', 200, 500)"
    by code_simp
  have p2: "parsed_record ''3600 10.0.0.2 GET /b 200 1''
              = Some (3600, ''10.0.0.2'', ''GET'', ''/b'', 200, 1)"
    by code_simp
  have m: "matching_records default_args
             [''86400 10.0.0.1 GET /a 200 500'', ''3600 10.0.0.2 GET /b 200 1'']
           = [(86400, ''10.0.0.1'', ''GET'', ''/a'', 200, 500),
              (3600, ''10.0.0.2'', ''GET'', ''/b'', 200, 1)]"
    by (simp add: matching_records_Cons p1 p2 matches_default_args matching_records_def
        map_filter_simps)
  have w: "requests_per_hour (process_record a r' (Some 0)) = requests_per_hour a"
          "recent_ip_counts (process_record a r' (Some 0)) = recent_ip_counts a"
    for a r'
    by (simp_all add: process_record_fields truthy_int_def)
  have "find_max_timestamp [''86400 10.0.0.1 GET /a 200 500'', ''3600 10.0.0.2 GET /b 200 1'']
        default_args = Inr (Some 86400)"
    by (simp add: find_max_timestamp_def find_max_loop_closed m timestamp_of_def)
  moreover have "hour_index_of 3600 (86400 - 86400) = 1"
    by (simp add: hour_index_of_def)
  moreover have "(case process_file [''86400 10.0.0.1 GET /a 200 500'', ''3600 10.0.0.2 GET /b 200 1'']
              default_args (Some (86400 - 86400)) of
         Inl e \<Rightarrow> False
       | Inr (analyzer, warnings) \<Rightarrow>
           total_requests analyzer = 2 \<and> requests_per_hour analyzer = []
           \<and> recent_ip_counts analyzer = [])"
    by (simp add: process_file_def process_loop_closed m w process_record_fields(2))
       (simp add: TrafficAnalyzer_def)
  ultimately show ?thesis
    using w by blast
qed

section \<open>Records beyond the 24 hour buckets\<close>

text \<open>
  Claim C3, as stated: a processed record with \<open>timestamp \<ge> cutoff\<close> whose hour index is
  24 or more increments neither \<^verbatim>\<open>requests_per_hour\<close> nor \<^verbatim>\<open>recent_ip_counts\<close>. The
  statement fails for \<^verbatim>\<open>recent_ip_counts\<close>: its increment stands after the inner
  \<^verbatim>\<open>if 0 <= hour_index < 24\<close>, not inside it. With the cutoff \<open>1000 - 86400\<close> the
  record with timestamp 1000 has hour index 24, and its IP is counted as recent.
\<close>

theorem process_record_beyond_window_counterexample:
  "(- 85400 :: int) \<le> 1000
   \<and> hour_index_of 1000 (- 85400) = 24
   \<and> recent_ip_counts (TrafficAnalyzer 3) = []
   \<and> recent_ip_counts (process_record (TrafficAnalyzer 3)
         (1000, ''10.0.0.1'', ''GET'', ''/a'', 200, 500) (Some (- 85400)))
       = [(''10.0.0.1'', 1)]"
  by (simp add: process_record_fields truthy_int_def hour_index_of_def timestamp_of_def
      ip_of_def TrafficAnalyzer_def)

text \<open>
  Claim C3, amended: for a defined cutoff, a processed record with \<open>timestamp \<ge> cutoff\<close>
  whose hour index is 24 or more leaves \<^verbatim>\<open>requests_per_hour\<close> unchanged, and every
  counter outside the window counts it; \<^verbatim>\<open>recent_ip_counts\<close> does not depend on the
  hour index, and for a cutoff other than 0 the record's IP is incremented there.
\<close>

theorem process_record_beyond_window:
  assumes "cutoff \<le> timestamp_of r" and "24 \<le> hour_index_of (timestamp_of r) cutoff"
  shows "requests_per_hour (process_record self r (Some cutoff)) = requests_per_hour self
    \<and> (cutoff \<noteq> 0 \<longrightarrow>
         recent_ip_counts (process_record self r (Some cutoff))
        = counter_inc (ip_of r) (recent_ip_counts self))
    \<and> total_requests (process_record self r (Some cutoff)) = total_requests self + 1
    \<and> unique_ips (process_record self r (Some cutoff)) = insert (ip_of r) (unique_ips self)
    \<and> total_data (process_record self r (Some cutoff)) = total_data self + size_of r
    \<and> ip_counter (process_record self r (Some cutoff)) = counter_inc (ip_of r) (ip_counter self)
    \<and> url_counter (process_record self r (Some cutoff)) = counter_inc (url_of r) (url_counter self)
    \<and> method_counter (process_record self r (Some cutoff))
        = counter_inc (method_of r) (method_counter self)
    \<and> success_count (process_record self r (Some cutoff))
        = success_count self + (if 200 \<le> status_of r \<and> status_of r < 300 then 1 else 0)
    \<and> client_error_count (process_record self r (Some cutoff))
        = client_error_count self + (if 400 \<le> status_of r \<and> status_of r < 500 then 1 else 0)
    \<and> server_error_count (process_record self r (Some cutoff))
        = server_error_count self + (if 500 \<le> status_of r \<and> status_of r < 600 then 1 else 0)"
  using assms by (simp add: process_record_fields truthy_int_def)

theorem process_record_beyond_window_witness:
  "(- 85400 :: int) \<le> timestamp_of (1000, ''10.0.0.1'', ''GET'', ''/a'', 200, 500)
   \<and> 24 \<le> hour_index_of (timestamp_of (1000, ''10.0.0.1'', ''GET'', ''/a'', 200, 500)) (- 85400)
   \<and> requests_per_hour (process_record (TrafficAnalyzer 3)
         (1000, ''10.0.0.1'', ''GET'', ''/a'', 200, 500) (Some (- 85400))) = []
   \<and> recent_ip_counts (process_record (TrafficAnalyzer 3)
         (1000, ''10.0.0.1'', ''GET'', ''/a'', 200, 500) (Some (- 85400))) = [(''10.0.0.1'', 1)]
   \<and> total_requests (process_record (TrafficAnalyzer 3)
         (1000, ''10.0.0.1'', ''GET'', ''/a'', 200, 500) (Some (- 85400))) = 1"
proof -
  have h1: "(- 85400 :: int) \<le> timestamp_of (1000, ''10.0.0.1'', ''GET'', ''/a'', 200, 500)"
    by (simp add: timestamp_of_def)
  have h2: "24 \<le> hour_index_of (timestamp_of (1000, ''10.0.0.1'', ''GET'', ''/a'', 200, 500)) (- 85400)"
    by (simp add: timestamp_of_def hour_index_of_def)
  show ?thesis
    using h1 h2 process_record_beyond_window [OF h1 h2, of "TrafficAnalyzer 3"]
    by (simp add: TrafficAnalyzer_def ip_of_def)
qed

section \<open>Byte counts as text\<close>

lemma round_half_even_near: "\<bar>of_int (round_half_even q) - q\<bar> \<le> 1 / 2"
proof -
  have "of_int \<lfloor>q\<rfloor> \<le> q" and "q < of_int \<lfloor>q\<rfloor> + 1"
    by linarith+
  then show ?thesis
    by (auto simp add: round_half_even_def Let_def)
qed

lemma round_half_even_nonneg: "0 \<le> q \<Longrightarrow> 0 \<le> round_half_even q"
  by (auto simp add: round_half_even_def Let_def)

lemma hundredth_near:
  fixes r x :: rat
  assumes "\<bar>r - x * 100\<bar> \<le> 1 / 2"
  shows "\<bar>r / 100 - x\<bar> \<le> 1 / 200"
  using assms by (simp add: abs_le_iff field_simps)

lemma format_2f_value:
  "\<exists>m. format_2f q = (if q < 0 then ''-'' else []) @ show_nat (m div 100) @ ''.''
                        @ [digit_char (m div 10), digit_char m]
       \<and> \<bar>of_nat m / 100 - \<bar>q\<bar>\<bar> \<le> 1 / 200"
proof -
  let ?m = "nat (round_half_even (\<bar>q\<bar> * 100))"
  have "0 \<le> round_half_even (\<bar>q\<bar> * 100)"
    by (rule round_half_even_nonneg) simp
  then have eq: "(of_nat ?m :: rat) = of_int (round_half_even (\<bar>q\<bar> * 100))"
    by simp
  have "\<bar>of_int (round_half_even (\<bar>q\<bar> * 100)) - \<bar>q\<bar> * 100\<bar> \<le> 1 / 2"
    by (rule round_half_even_near)
  then have "\<bar>of_nat ?m - \<bar>q\<bar> * 100\<bar> \<le> 1 / 2"
    by (simp only: eq)
  then have "\<bar>of_nat ?m / 100 - \<bar>q\<bar>\<bar> \<le> 1 / 200"
    by (rule hundredth_near)
  then show ?thesis
    by (intro exI [of _ ?m]) (simp add: format_2f_def Let_def)
qed

lemma round_double_large:
  assumes "2 ^ 53 \<le> \<bar>n\<bar>"
  shows "2 ^ 53 \<le> \<bar>round_double n\<bar>"
proof -
  have a: "\<bar>\<bar>n\<bar>\<bar> = \<bar>n\<bar>" and s: "sgn \<bar>n\<bar> = 1"
    using assms by simp_all
  have nz: "n \<noteq> 0"
    using assms by auto
  have "round_double n = sgn n * round_double \<bar>n\<bar>"
    using assms nz by (simp add: round_double_def Let_def)
  moreover have "2 ^ 53 \<le> round_double \<bar>n\<bar>"
    using assms by (intro round_double_ge) simp_all
  moreover have "\<bar>sgn n\<bar> = 1"
    using assms by (simp add: abs_sgn_eq)
  ultimately show ?thesis
    by (simp add: abs_mult)
qed

text \<open>
  Claim C7, as stated: \<^verbatim>\<open>human_readable_bytes\<close> renders every value with two decimal
  places, and values from \<open>1024 ^ 4\<close> on are rendered in TB. The statement fails for
  values beyond the range of floats: at \<open>2 ^ 1034\<close> the division \<^verbatim>\<open>num /= 1024\<close> of the
  integer raises OverflowError, and nothing is rendered.
\<close>

theorem human_readable_bytes_overflow_counterexample:
  "(1024 :: int) ^ 4 \<le> 2 ^ 1034
   \<and> human_readable_bytes (2 ^ 1034) = Inl OverflowError"
proof (rule conjI)
  show "(1024 :: int) ^ 4 \<le> 2 ^ 1034"
    by simp
  show "human_readable_bytes (2 ^ 1034) = Inl OverflowError"
    by (rule human_readable_bytes_overflow)
qed

text \<open>
  Claim C7, amended: \<^verbatim>\<open>human_readable_bytes\<close> takes the unit B below 1024, then KB, MB
  and GB, each after one more division by 1024, and TB from \<open>1024 ^ 4\<close> on, with no
  further division. The value is the float nearest to the byte count, divided by the
  power of 1024 of the unit, and is written as the nearest hundredth with two digits
  after the point. A count below \<open>2 ^ 53\<close> in size is a float itself. OverflowError is
  raised exactly when the nearest float of a count of 1024 or more reaches \<open>2 ^ 1034\<close>,
  or that of a count below 1024 reaches \<open>2 ^ 1024\<close> in size. In particular 0 is
  \<^verbatim>\<open>0.00 B\<close>, 1024 is \<^verbatim>\<open>1.00 KB\<close> and 1536 is \<^verbatim>\<open>1.50 KB\<close>; and \<open>2 ^ 53 + 2 ^ 37 + 1\<close>,
  which is not a float, is \<^verbatim>\<open>8192.12 TB\<close>.
\<close>

theorem human_readable_bytes_scale:
  "human_readable_bytes n =
     (if n < 1024 then
        (if 2 ^ 1024 \<le> \<bar>round_double n\<bar> then Inl OverflowError
         else Inr (Some (format_2f (of_int (round_double n)) @ '' B'')))
      else if 2 ^ 1034 \<le> round_double n then Inl OverflowError
      else Inr (Some
        (if n < 1024 ^ 2 then format_2f (of_int (round_double n) / 1024) @ '' KB''
         else if n < 1024 ^ 3 then format_2f (of_int (round_double n) / 1024 ^ 2) @ '' MB''
         else if n < 1024 ^ 4 then format_2f (of_int (round_double n) / 1024 ^ 3) @ '' GB''
         else format_2f (of_int (round_double n) / 1024 ^ 4) @ '' TB'')))
   \<and> (if \<bar>n\<bar> < 2 ^ 53 then round_double n = n else 2 ^ 53 \<le> \<bar>round_double n\<bar>)
   \<and> (\<exists>m. format_2f q = (if q < 0 then ''-'' else []) @ show_nat (m div 100) @ ''.''
                           @ [digit_char (m div 10), digit_char m]
          \<and> \<bar>of_nat m / 100 - \<bar>q\<bar>\<bar> \<le> 1 / 200)
   \<and> human_readable_bytes 0 = Inr (Some ''0.00 B'')
   \<and> human_readable_bytes 1024 = Inr (Some ''1.00 KB'')
   \<and> human_readable_bytes 1536 = Inr (Some ''1.50 KB'')
   \<and> human_readable_bytes (2 ^ 53 + 2 ^ 37 + 1) = Inr (Some ''8192.12 TB'')"
proof -
  have r: "if \<bar>n\<bar> < 2 ^ 53 then round_double n = n else 2 ^ 53 \<le> \<bar>round_double n\<bar>"
  proof (cases "\<bar>n\<bar> < 2 ^ 53")
    case True
    then show ?thesis by (simp add: round_double_id)
  next
    case False
    then have "2 ^ 53 \<le> \<bar>round_double n\<bar>"
      by (intro round_double_large) simp
    with False show ?thesis by simp
  qed
  have t: "human_readable_bytes (2 ^ 53 + 2 ^ 37 + 1) = Inr (Some ''8192.12 TB'')"
    using human_readable_bytes_tie by simp
  show ?thesis
    using human_readable_bytes_cases [of n] r format_2f_value [of q]
      human_readable_bytes_small(1,3,4) t
    by blast
qed

section \<open>No matching record\<close>

text \<open>
  Claim C9. When no line of the file parses to a record that passes the filters, the scan
  returns \<^verbatim>\<open>None\<close>, the second pass is not run, and \<^verbatim>\<open>main\<close> prints the report of a
  fresh aggregator with no cutoff and exits with status 0. That report has every counter
  at 0, \<^verbatim>\<open>(no data)\<close> for the request distribution and for both top lists, 0 recent
  unique IPs and the empty hourly list.
\<close>

theorem main_no_matching_record:
  assumes "matching_records args lns = []"
  shows "find_max_timestamp lns args = Inr None
    \<and> (\<exists>report.
          generate_report pf (TrafficAnalyzer (args_top args)) args None = Inr report
          \<and> main pf args lns =
              Inr \<lparr>stdout = [report],
                   stderr = [''No valid records matched the filters.''],
                   exit_status = 0\<rparr>
          \<and> report =
              join [CHR 0x0A]
                ([''====== TRAFFIC ANALYSIS REPORT ======'' @ [CHR 0x0A]]
                 @ filter_settings args
                 @ [''Basic statistics:'',
                    ''Total requests: 0'',
                    ''Unique IPs: 0'',
                    ''Total data transferred: 0 (0.00 B)'',
                    [],
                    ''Request distribution:'',
                    ''(no data)'',
                    [],
                    ''Performance metrics:'',
                    ''- Successful requests (2xx): 0'',
                    ''- Client errors (4xx): 0'',
                    ''- Server errors (5xx): 0'',
                    ''- Average response size (2xx): 0.00 bytes'',
                    [],
                    ''Top '' @ str_int (args_top args) @ '' active IPs:'',
                    ''(no data)'',
                    [],
                    ''Top 5 requested URLs:'',
                    ''(no data)'',
                    [],
                    ''Recent activity (last 24h):'',
                    ''- Unique IPs: 0'',
                    ''- Requests per hour (last 24h): []'']))"
proof -
  have none: "find_max_timestamp lns args = Inr None"
    using assms by (simp add: find_max_timestamp_closed)
  have rep: "generate_report pf (TrafficAnalyzer (args_top args)) args None
      = Inr (join [CHR 0x0A]
          ([''====== TRAFFIC ANALYSIS REPORT ======'' @ [CHR 0x0A]]
           @ filter_settings args
           @ [''Basic statistics:'',
              ''Total requests: 0'',
              ''Unique IPs: 0'',
              ''Total data transferred: 0 (0.00 B)'',
              [],
              ''Request distribution:'',
              ''(no data)'',
              [],
              ''Performance metrics:'',
              ''- Successful requests (2xx): 0'',
              ''- Client errors (4xx): 0'',
              ''- Server errors (5xx): 0'',
              ''- Average response size (2xx): 0.00 bytes'',
              [],
              ''Top '' @ str_int (args_top args) @ '' active IPs:'',
              ''(no data)'',
              [],
              ''Top 5 requested URLs:'',
              ''(no data)'',
              [],
              ''Recent activity (last 24h):'',
              ''- Unique IPs: 0'',
              ''- Requests per hour (last 24h): []'']))"
    by (simp only: generate_report_def empty_report_lines bind_err_def sum.case)
  have "main pf args lns =
        bind_err (generate_report pf (TrafficAnalyzer (args_top args)) args None)
          (\<lambda>report.
             Inr \<lparr>stdout = [report],
                  stderr = [''No valid records matched the filters.''],
                  exit_status = 0\<rparr>)"
    using none by (simp add: main_def bind_err_def)
  then show ?thesis
    using none rep by (simp add: bind_err_def)
qed

theorem main_no_matching_record_witness:
  "matching_records
     \<lparr>args_method = Some ''POST'', args_status_filter = None, args_start = None,
      args_end = None, args_top = 3\<rparr>
     [''1000 10.0.0.1 GET /a 200'', ''1000 10.0.0.1 GET /a 200 500''] = []
   \<and> (\<exists>report.
         generate_report
           \<lparr>pct_text = (\<lambda>c t. []), avg_text = (\<lambda>s n. []), hour_text = (\<lambda>ts. [])\<rparr>
           (TrafficAnalyzer 3)
           \<lparr>args_method = Some ''POST'', args_status_filter = None, args_start = None,
            args_end = None, args_top = 3\<rparr> None = Inr report
         \<and> main \<lparr>pct_text = (\<lambda>c t. []), avg_text = (\<lambda>s n. []), hour_text = (\<lambda>ts. [])\<rparr>
             \<lparr>args_method = Some ''POST'', args_status_filter = None, args_start = None,
              args_end = None, args_top = 3\<rparr>
             [''1000 10.0.0.1 GET /a 200'', ''1000 10.0.0.1 GET /a 200 500'']
           = Inr \<lparr>stdout = [report],
                  stderr = [''No valid records matched the filters.''],
                  exit_status = 0\<rparr>)"
proof -
  have p1: "parsed_record ''1000 10.0.0.1 GET /a 200'' = None"
    by code_simp
  have p2: "parsed_record ''1000 10.0.0.1 GET /a 200 500''
              = Some (1000, ''10.0.0.1'', ''GET'', ''/a'', 200, 500)"
    by code_simp
  have h: "matching_records
     \<lparr>args_method = Some ''POST'', args_status_filter = None, args_start = None,
      args_end = None, args_top = 3\<rparr>
     [''1000 10.0.0.1 GET /a 200'', ''1000 10.0.0.1 GET /a 200 500''] = []"
    by (simp add: matching_records_Cons p1 p2 matching_records_def map_filter_simps
        matches_filters_def truthy_str_def)
  show ?thesis
    using h main_no_matching_record [OF h,
        of "\<lparr>pct_text = (\<lambda>c t. []), avg_text = (\<lambda>s n. []), hour_text = (\<lambda>ts. [])\<rparr>"]
    by auto
qed

section \<open>Totals of the aggregator\<close>

lemma counter_total_inc: "counter_total (counter_inc k c) = counter_total c + 1"
  by (induction c) (auto simp add: counter_total_def)

lemma process_calls_Cons:
  "process_calls a ((r, cutoff) # calls) = process_calls (process_record a r cutoff) calls"
  by (simp add: process_calls_def)

lemma process_calls_totals:
  "total_requests (process_calls a calls) = total_requests a + int (length calls)"
  "counter_total (method_counter (process_calls a calls))
     = counter_total (method_counter a) + int (length calls)"
  by (induction calls arbitrary: a;
      auto simp add: process_calls_Cons process_record_fields counter_total_inc
        process_calls_def)+

lemma process_calls_classes:
  "success_count (process_calls a calls) + client_error_count (process_calls a calls)
     + server_error_count (process_calls a calls)
   = success_count a + client_error_count a + server_error_count a
     + int (length (filter (\<lambda>(r, cutoff). 200 \<le> status_of r \<and> status_of r < 300
                                       \<or> 400 \<le> status_of r \<and> status_of r < 500
                                       \<or> 500 \<le> status_of r \<and> status_of r < 600) calls))"
proof (induction calls arbitrary: a)
  case Nil
  then show ?case by (simp add: process_calls_def)
next
  case (Cons x calls)
  obtain r cutoff where x: "x = (r, cutoff)" by (cases x)
  show ?case
    unfolding x process_calls_Cons Cons.IH
    by (simp add: process_record_fields)
qed

lemma length_filter_all: "(length (filter P xs) = length xs) = list_all P xs"
proof (induction xs)
  case Nil
  then show ?case by simp
next
  case (Cons x xs)
  have le: "length (filter P xs) \<le> length xs" by (rule length_filter_le)
  show ?case
  proof (cases "P x")
    case True
    with Cons show ?thesis by simp
  next
    case False
    have "length (filter P xs) \<noteq> Suc (length xs)"
      using le by linarith
    with False show ?thesis by simp
  qed
qed

text \<open>
  Claim C6. After any sequence of \<^verbatim>\<open>process_record\<close> calls on a fresh aggregator, whatever
  the cutoff of each call, \<^verbatim>\<open>total_requests\<close> is the sum of the values of
  \<^verbatim>\<open>method_counter\<close>; the three status counters together are at most
  \<^verbatim>\<open>total_requests\<close>, and they reach it exactly when the status of every processed
  record lies in 200..299, 400..499 or 500..599.
\<close>

theorem process_record_totals:
  "total_requests (process_calls (TrafficAnalyzer n) calls)
     = counter_total (method_counter (process_calls (TrafficAnalyzer n) calls))
   \<and> success_count (process_calls (TrafficAnalyzer n) calls)
       + client_error_count (process_calls (TrafficAnalyzer n) calls)
       + server_error_count (process_calls (TrafficAnalyzer n) calls)
     \<le> total_requests (process_calls (TrafficAnalyzer n) calls)
   \<and> (total_requests (process_calls (TrafficAnalyzer n) calls)
        = success_count (process_calls (TrafficAnalyzer n) calls)
          + client_error_count (process_calls (TrafficAnalyzer n) calls)
          + server_error_count (process_calls (TrafficAnalyzer n) calls))
     = list_all (\<lambda>(r, cutoff). 200 \<le> status_of r \<and> status_of r < 300
                              \<or> 400 \<le> status_of r \<and> status_of r < 500
                              \<or> 500 \<le> status_of r \<and> status_of r < 600) calls"
proof -
  let ?P = "\<lambda>(r :: log_record, cutoff :: int option).
              200 \<le> status_of r \<and> status_of r < 300
              \<or> 400 \<le> status_of r \<and> status_of r < 500
              \<or> 500 \<le> status_of r \<and> status_of r < 600"
  let ?a = "process_calls (TrafficAnalyzer n) calls"
  have t: "total_requests ?a = int (length calls)"
    by (simp add: process_calls_totals) (simp add: TrafficAnalyzer_def)
  have m: "counter_total (method_counter ?a) = int (length calls)"
    by (simp add: process_calls_totals) (simp add: TrafficAnalyzer_def counter_total_def)
  have c: "success_count ?a + client_error_count ?a + server_error_count ?a
             = int (length (filter ?P calls))"
    by (simp add: process_calls_classes TrafficAnalyzer_def)
  have le: "length (filter ?P calls) \<le> length calls"
    by (rule length_filter_le)
  have eq: "(length calls = length (filter ?P calls)) = list_all ?P calls"
    using length_filter_all [of ?P calls] by auto
  show ?thesis
    unfolding t m c using le eq by simp
qed

section \<open>Counters keep their keys in first-seen order\<close>

lemma set_first_seen: "set (first_seen ks) = set ks"
  by (induction ks) auto

lemma filter_first_seen: "filter P (first_seen ks) = first_seen (filter P ks)"
proof (induction ks)
  case Nil
  then show ?case by simp
next
  case (Cons k ks)
  show ?case
  proof (cases "P k")
    case True
    have "filter P (filter (\<lambda>x. x \<noteq> k) (first_seen ks))
            = filter (\<lambda>x. x \<noteq> k) (filter P (first_seen ks))"
      by (simp add: conj_commute)
    with True show ?thesis by (simp add: Cons.IH)
  next
    case False
    have "k \<notin> set (first_seen (filter P ks))"
      using False by (simp add: set_first_seen)
    then have id: "filter (\<lambda>x. x \<noteq> k) (first_seen (filter P ks)) = first_seen (filter P ks)"
      by (auto simp add: filter_id_conv)
    have "filter P (filter (\<lambda>x. x \<noteq> k) (first_seen ks))
            = filter (\<lambda>x. x \<noteq> k) (filter P (first_seen ks))"
      by (simp add: conj_commute)
    with False show ?thesis by (simp add: Cons.IH id)
  qed
qed

lemma keys_counter_inc:
  "map fst (counter_inc k c) = (if k \<in> set (map fst c) then map fst c else map fst c @ [k])"
  by (induction c) (auto simp add: image_iff, force+)

lemma keys_counter_fold:
  "map fst (foldl (\<lambda>c k. counter_inc k c) c ks)
     = map fst c @ first_seen (filter (\<lambda>k. k \<notin> set (map fst c)) ks)"
proof (induction ks arbitrary: c)
  case Nil
  then show ?case by simp
next
  case (Cons k ks)
  show ?case
  proof (cases "k \<in> set (map fst c)")
    case True
    then show ?thesis
      by (simp add: Cons.IH keys_counter_inc)
  next
    case False
    have "filter (\<lambda>x. x \<notin> set (map fst c @ [k])) ks
            = filter (\<lambda>x. x \<noteq> k) (filter (\<lambda>x. x \<notin> set (map fst c)) ks)"
      by (auto intro: filter_cong)
    then have "first_seen (filter (\<lambda>x. x \<notin> set (map fst c @ [k])) ks)
            = filter (\<lambda>x. x \<noteq> k) (first_seen (filter (\<lambda>x. x \<notin> set (map fst c)) ks))"
      by (simp only: filter_first_seen)
    with False show ?thesis
      by (simp add: Cons.IH keys_counter_inc)
  qed
qed

lemma keys_counter_fresh:
  "map fst (foldl (\<lambda>c k. counter_inc k c) [] ks) = first_seen ks"
  by (simp add: keys_counter_fold)

lemma filter_take_prefix:
  "filter P (take n xs) = take (length (filter P (take n xs))) (filter P xs)"
proof -
  have "filter P xs = filter P (take n xs) @ filter P (drop n xs)"
    by (metis append_take_drop_id filter_append)
  then show ?thesis by simp
qed

lemma process_calls_counters:
  "ip_counter (process_calls a calls)
     = foldl (\<lambda>c k. counter_inc k c) (ip_counter a) (map (\<lambda>(r, cutoff). ip_of r) calls)"
  "url_counter (process_calls a calls)
     = foldl (\<lambda>c k. counter_inc k c) (url_counter a) (map (\<lambda>(r, cutoff). url_of r) calls)"
  "method_counter (process_calls a calls)
     = foldl (\<lambda>c k. counter_inc k c) (method_counter a) (map (\<lambda>(r, cutoff). method_of r) calls)"
  by (induction calls arbitrary: a;
      auto simp add: process_calls_Cons process_record_fields process_calls_def)+

section \<open>The aggregator does not depend on the order of the records\<close>

lemma map_of_counter_inc:
  "map_of (counter_inc k c) = (map_of c)(k \<mapsto> counter_get c k + 1)"
  by (induction c) (auto simp add: counter_get_def fun_eq_iff)

lemma counter_get_inc:
  "counter_get (counter_inc k c) k' = counter_get c k' + (if k' = k then 1 else 0)"
  by (simp add: counter_get_def map_of_counter_inc)

lemma map_of_counter_fold:
  "map_of (foldl (\<lambda>c k. counter_inc k c) c ks) k
     = (if k \<in> set ks \<or> map_of c k \<noteq> None
        then Some (counter_get c k + int (count_list ks k)) else None)"
proof (induction ks arbitrary: c)
  case Nil
  then show ?case by (auto simp add: counter_get_def)
next
  case (Cons x ks)
  show ?case
    by (simp add: Cons.IH map_of_counter_inc counter_get_inc)
qed

lemma map_of_counter_perm:
  assumes "mset ks = mset ks'"
  shows "map_of (foldl (\<lambda>c k. counter_inc k c) c ks)
           = map_of (foldl (\<lambda>c k. counter_inc k c) c ks')"
proof
  fix k
  have "set ks = set ks'"
    using assms by (rule mset_eq_setD)
  moreover have "count_list ks k = count_list ks' k"
    using assms by (metis count_mset)
  ultimately show "map_of (foldl (\<lambda>c k. counter_inc k c) c ks) k
           = map_of (foldl (\<lambda>c k. counter_inc k c) c ks') k"
    by (simp add: map_of_counter_fold)
qed

lemma process_calls_same_cutoff:
  "foldl (\<lambda>a r. process_record a r cutoff) a rs = process_calls a (map (\<lambda>r. (r, cutoff)) rs)"
  by (simp add: process_calls_def foldl_map)

lemma process_calls_top_n:
  "top_n (process_calls a calls) = top_n a"
proof (induction calls arbitrary: a)
  case Nil
  show ?case by (simp add: process_calls_def)
next
  case (Cons x calls)
  obtain r cutoff where x: "x = (r, cutoff)" by (cases x)
  show ?case
    unfolding x process_calls_Cons Cons.IH
    by (simp add: process_record_fields)
qed

lemma process_calls_unique_ips:
  "unique_ips (process_calls a calls) = unique_ips a \<union> set (map (\<lambda>(r, cutoff). ip_of r) calls)"
proof (induction calls arbitrary: a)
  case Nil
  show ?case by (simp add: process_calls_def)
next
  case (Cons x calls)
  obtain r cutoff where x: "x = (r, cutoff)" by (cases x)
  show ?case
    unfolding x process_calls_Cons Cons.IH
    by (simp add: process_record_fields)
qed

lemma process_calls_total_data:
  "total_data (process_calls a calls)
     = total_data a + sum_list (map (\<lambda>(r, cutoff). size_of r) calls)"
proof (induction calls arbitrary: a)
  case Nil
  show ?case by (simp add: process_calls_def)
next
  case (Cons x calls)
  obtain r cutoff where x: "x = (r, cutoff)" by (cases x)
  show ?case
    unfolding x process_calls_Cons Cons.IH
    by (simp add: process_record_fields)
qed

lemma process_calls_success:
  "success_count (process_calls a calls)
     = success_count a
       + int (length (filter (\<lambda>(r, cutoff). 200 \<le> status_of r \<and> status_of r < 300) calls))"
proof (induction calls arbitrary: a)
  case Nil
  show ?case by (simp add: process_calls_def)
next
  case (Cons x calls)
  obtain r cutoff where x: "x = (r, cutoff)" by (cases x)
  show ?case
    unfolding x process_calls_Cons Cons.IH
    by (simp add: process_record_fields)
qed

lemma process_calls_client_error:
  "client_error_count (process_calls a calls)
     = client_error_count a
       + int (length (filter (\<lambda>(r, cutoff). 400 \<le> status_of r \<and> status_of r < 500) calls))"
proof (induction calls arbitrary: a)
  case Nil
  show ?case by (simp add: process_calls_def)
next
  case (Cons x calls)
  obtain r cutoff where x: "x = (r, cutoff)" by (cases x)
  show ?case
    unfolding x process_calls_Cons Cons.IH
    by (simp add: process_record_fields)
qed

lemma process_calls_server_error:
  "server_error_count (process_calls a calls)
     = server_error_count a
       + int (length (filter (\<lambda>(r, cutoff). 500 \<le> status_of r \<and> status_of r < 600) calls))"
proof (induction calls arbitrary: a)
  case Nil
  show ?case by (simp add: process_calls_def)
next
  case (Cons x calls)
  obtain r cutoff where x: "x = (r, cutoff)" by (cases x)
  show ?case
    unfolding x process_calls_Cons Cons.IH
    by (simp add: process_record_fields)
qed

lemma process_calls_success_size:
  "success_size_sum (process_calls a calls)
     = success_size_sum a
       + sum_list (map (\<lambda>(r, cutoff). size_of r)
           (filter (\<lambda>(r, cutoff). 200 \<le> status_of r \<and> status_of r < 300) calls))"
proof (induction calls arbitrary: a)
  case Nil
  show ?case by (simp add: process_calls_def)
next
  case (Cons x calls)
  obtain r cutoff where x: "x = (r, cutoff)" by (cases x)
  show ?case
    unfolding x process_calls_Cons Cons.IH
    by (simp add: process_record_fields)
qed

lemma process_calls_recent:
  "recent_ip_counts (process_calls a calls)
     = foldl (\<lambda>c k. counter_inc k c) (recent_ip_counts a)
         (map (\<lambda>(r, cutoff). ip_of r)
            (filter (\<lambda>(r, cutoff). truthy_int cutoff \<and> the cutoff \<le> timestamp_of r) calls))"
proof (induction calls arbitrary: a)
  case Nil
  show ?case by (simp add: process_calls_def)
next
  case (Cons x calls)
  obtain r cutoff where x: "x = (r, cutoff)" by (cases x)
  show ?case
    unfolding x process_calls_Cons Cons.IH
    by (simp add: process_record_fields)
qed

lemma process_calls_per_hour:
  "requests_per_hour (process_calls a calls)
     = foldl (\<lambda>c k. counter_inc k c) (requests_per_hour a)
         (map (\<lambda>(r, cutoff). hour_index_of (timestamp_of r) (the cutoff))
            (filter (\<lambda>(r, cutoff). truthy_int cutoff \<and> the cutoff \<le> timestamp_of r
                       \<and> 0 \<le> hour_index_of (timestamp_of r) (the cutoff)
                       \<and> hour_index_of (timestamp_of r) (the cutoff) < 24) calls))"
proof (induction calls arbitrary: a)
  case Nil
  show ?case by (simp add: process_calls_def)
next
  case (Cons x calls)
  obtain r cutoff where x: "x = (r, cutoff)" by (cases x)
  show ?case
    unfolding x process_calls_Cons Cons.IH
    by (simp add: process_record_fields)
qed

lemma perm_map_filter:
  assumes "mset xs = mset ys"
  shows "mset (map f (filter P xs)) = mset (map f (filter P ys))"
  using assms by simp

lemma perm_sum_list:
  fixes f :: "'a \<Rightarrow> int"
  assumes "mset xs = mset ys"
  shows "sum_list (map f xs) = sum_list (map f ys)"
proof -
  have "mset (map f xs) = mset (map f ys)"
    using assms by simp
  then show ?thesis
    by (metis sum_mset_sum_list)
qed

lemma perm_length_filter:
  assumes "mset xs = mset ys"
  shows "length (filter P xs) = length (filter P ys)"
proof -
  have "mset (filter P xs) = mset (filter P ys)"
    using assms by simp
  then show ?thesis
    by (rule mset_eq_length)
qed

lemma process_calls_perm:
  assumes "mset calls = mset calls'"
  shows "same_statistics (process_calls a calls) (process_calls a calls')"
proof -
  have len: "length calls = length calls'"
    using assms by (rule mset_eq_length)
  have st: "set calls = set calls'"
    using assms by (rule mset_eq_setD)
  have flt: "mset (filter P calls) = mset (filter P calls')" for P
    using assms by simp
  have sm: "sum_list (map f calls) = sum_list (map f calls')" for f :: "_ \<Rightarrow> int"
    using assms by (rule perm_sum_list)
  have smf: "sum_list (map f (filter P calls)) = sum_list (map f (filter P calls'))"
    for f :: "_ \<Rightarrow> int" and P
    using flt by (rule perm_sum_list)
  have lf: "length (filter P calls) = length (filter P calls')" for P
    using assms by (rule perm_length_filter)
  have mp: "mset (map f calls) = mset (map f calls')" for f :: "_ \<Rightarrow> 'k"
    using assms by simp
  have cnt: "map_of (foldl (\<lambda>c k. counter_inc k c) c (map f calls))
               = map_of (foldl (\<lambda>c k. counter_inc k c) c (map f calls'))"
    for c :: "'k counter" and f
    using mp by (rule map_of_counter_perm)
  have cntf: "map_of (foldl (\<lambda>c k. counter_inc k c) c (map f (filter P calls)))
               = map_of (foldl (\<lambda>c k. counter_inc k c) c (map f (filter P calls')))"
    for c :: "'k counter" and f P
    using perm_map_filter [OF assms] by (rule map_of_counter_perm)
  show ?thesis
    unfolding same_statistics_def process_calls_top_n process_calls_totals
      process_calls_unique_ips process_calls_total_data process_calls_counters
      process_calls_success process_calls_client_error process_calls_server_error
      process_calls_success_size process_calls_recent process_calls_per_hour
    by (simp only: len st sm smf lf cnt cntf set_map simp_thms)
qed

lemma matching_records_perm:
  assumes "mset lns = mset lns'"
  shows "mset (matching_records args lns) = mset (matching_records args lns')"
  using assms by (simp add: matching_records_def map_filter_def)

lemma find_max_timestamp_perm:
  assumes "mset lns = mset lns'"
  shows "find_max_timestamp lns args = find_max_timestamp lns' args"
proof -
  have m: "mset (matching_records args lns) = mset (matching_records args lns')"
    using assms by (rule matching_records_perm)
  then have "set (matching_records args lns) = set (matching_records args lns')"
    by (rule mset_eq_setD)
  moreover have "(matching_records args lns = []) = (matching_records args lns' = [])"
    using m by (metis mset_zero_iff)
  ultimately show ?thesis
    by (simp add: find_max_timestamp_Max)
qed

lemma process_file_closed:
  "process_file lns args cutoff =
     Inr (process_calls (TrafficAnalyzer (args_top args))
            (map (\<lambda>r. (r, cutoff)) (matching_records args lns)),
          invalid_warnings 1 lns)"
  by (simp add: process_file_def process_loop_closed process_calls_same_cutoff)

lemma process_file_perm:
  assumes "mset lns = mset lns'"
  shows "same_statistics
           (process_calls (TrafficAnalyzer (args_top args))
              (map (\<lambda>r. (r, cutoff)) (matching_records args lns)))
           (process_calls (TrafficAnalyzer (args_top args))
              (map (\<lambda>r. (r, cutoff)) (matching_records args lns')))"
proof -
  have "mset (map (\<lambda>r. (r, cutoff)) (matching_records args lns))
          = mset (map (\<lambda>r. (r, cutoff)) (matching_records args lns'))"
    using matching_records_perm [OF assms, of args] by simp
  then show ?thesis
    by (rule process_calls_perm)
qed

lemma distinct_first_seen: "distinct (first_seen ks)"
  by (induction ks) (simp_all add: set_first_seen)

lemma filter_single:
  assumes "distinct xs" and "inj_on f (set xs)" and "k \<in> set xs"
  shows "filter (\<lambda>x. f k = f x) xs = [k]"
  using assms
proof (induction xs)
  case Nil
  then show ?case by simp
next
  case (Cons x xs)
  show ?case
  proof (cases "k = x")
    case True
    have "\<forall>y \<in> set xs. f x \<noteq> f y"
      using Cons.prems(1,2) by (auto simp add: inj_on_def)
    then have "filter (\<lambda>y. f x = f y) xs = []"
      by (simp add: filter_empty_conv)
    with True show ?thesis by simp
  next
    case False
    then have k: "k \<in> set xs"
      using Cons.prems(3) by simp
    have "f k \<noteq> f x"
      using Cons.prems(2) k False by (auto simp add: inj_on_def)
    moreover have "filter (\<lambda>x. f k = f x) xs = [k]"
      using Cons.prems(1,2) k by (intro Cons.IH) (simp_all add: inj_on_def)
    ultimately show ?thesis by simp
  qed
qed

lemma sorted_items_no_ties:
  assumes keys: "distinct (map fst c)" "distinct (map fst c')"
    and same: "map_of c = map_of c'"
    and noties: "distinct (map snd c)"
  shows "sorted_items c = sorted_items c'"
proof -
  let ?f = "\<lambda>(k :: 'a, n :: int). - n"
  have dc: "distinct c" and dc': "distinct c'"
    using keys by (auto simp add: distinct_map)
  have st: "set c = set c'"
    using keys same by (simp add: map_of_inject_set)
  then have ms: "mset c = mset c'"
    using dc dc' by (simp add: set_eq_iff_mset_eq_distinct)
  have inj: "inj_on ?f (set c)"
  proof (rule inj_onI)
    fix x y
    assume x: "x \<in> set c" and y: "y \<in> set c" and e: "?f x = ?f y"
    have "inj_on snd (set c)"
      using noties by (simp add: distinct_map)
    moreover have "snd x = snd y"
      using e by (cases x, cases y) simp
    ultimately show "x = y"
      using x y by (rule inj_onD)
  qed
  have "sort_key ?f c = sort_key ?f c'"
  proof (rule properties_for_sort_key)
    show "mset (sort_key ?f c') = mset c"
      using ms by simp
    show "sorted (map ?f (sort_key ?f c'))"
      by (rule sorted_sort_key)
    fix k
    assume "k \<in> set (sort_key ?f c')"
    then have k: "k \<in> set c"
      using st by simp
    have "filter (\<lambda>x. ?f k = ?f x) (sort_key ?f c') = filter (\<lambda>x. ?f k = ?f x) c'"
      using sort_key_stable [of ?f "?f k" c'] by (simp add: eq_commute)
    also have "\<dots> = [k]"
      using dc' inj k st by (intro filter_single) simp_all
    also have "\<dots> = filter (\<lambda>x. ?f k = ?f x) c"
      using dc inj k by (simp add: filter_single)
    finally show "filter (\<lambda>x. ?f k = ?f x) (sort_key ?f c') = filter (\<lambda>x. ?f k = ?f x) c" .
  qed
  then show ?thesis
    by (simp add: sorted_items_def)
qed

lemma fresh_counter_keys:
  "distinct (map fst (foldl (\<lambda>c k. counter_inc k c) [] ks))"
  "length (foldl (\<lambda>c k. counter_inc k c) [] ks) = card (set ks)"
proof -
  show "distinct (map fst (foldl (\<lambda>c k. counter_inc k c) [] ks))"
    by (simp add: keys_counter_fresh distinct_first_seen)
  have "length (foldl (\<lambda>c k. counter_inc k c) [] ks)
          = length (map fst (foldl (\<lambda>c k. counter_inc k c) [] ks))"
    by simp
  also have "\<dots> = length (first_seen ks)"
    by (simp only: keys_counter_fresh)
  also have "\<dots> = card (set (first_seen ks))"
    using distinct_first_seen [of ks] by (simp add: distinct_card)
  finally show "length (foldl (\<lambda>c k. counter_inc k c) [] ks) = card (set ks)"
    by (simp add: set_first_seen)
qed

lemma fresh_analyzer_keys:
  "distinct (map fst (method_counter (process_calls (TrafficAnalyzer n) calls)))"
  "distinct (map fst (ip_counter (process_calls (TrafficAnalyzer n) calls)))"
  "distinct (map fst (url_counter (process_calls (TrafficAnalyzer n) calls)))"
  by (simp_all add: process_calls_counters TrafficAnalyzer_def fresh_counter_keys)

lemma fresh_analyzer_recent_perm:
  assumes "mset calls = mset calls'"
  shows "length (recent_ip_counts (process_calls (TrafficAnalyzer n) calls))
           = length (recent_ip_counts (process_calls (TrafficAnalyzer n) calls'))"
proof -
  have "set calls = set calls'"
    using assms by (rule mset_eq_setD)
  then show ?thesis
    by (simp add: process_calls_recent TrafficAnalyzer_def fresh_counter_keys)
qed

lemma report_lines_cong:
  assumes "same_statistics a b"
    and "length (recent_ip_counts a) = length (recent_ip_counts b)"
    and "sorted_items (method_counter a) = sorted_items (method_counter b)"
    and "most_common (args_top args) (ip_counter a) = most_common (args_top args) (ip_counter b)"
    and "most_common 5 (url_counter a) = most_common 5 (url_counter b)"
  shows "report_lines pf a args cutoff = report_lines pf b args cutoff"
proof -
  have "basic_statistics a = basic_statistics b"
    using assms(1) by (simp add: same_statistics_def basic_statistics_def)
  moreover have "request_distribution pf a = request_distribution pf b"
    using assms(1,3) by (simp add: same_statistics_def request_distribution_def)
  moreover have "performance_metrics pf a = performance_metrics pf b"
    using assms(1) by (simp add: same_statistics_def performance_metrics_def)
  moreover have "top_ips_section a args = top_ips_section b args"
    using assms(4) by (simp add: top_ips_section_def)
  moreover have "top_urls_section a = top_urls_section b"
    using assms(5) by (simp add: top_urls_section_def)
  moreover have "recent_activity pf a cutoff = recent_activity pf b cutoff"
  proof -
    have "hour_data pf a c = hour_data pf b c" for c
      using assms(1) by (simp add: same_statistics_def hour_data_def counter_get_def)
    then show ?thesis
      using assms(2) by (simp add: recent_activity_def split: option.splits)
  qed
  ultimately show ?thesis
    by (simp add: report_lines_def)
qed

section \<open>The parser\<close>

lemma split_acc_tokens:
  "list_all (\<lambda>c. \<not> isspace c) cur \<Longrightarrow>
   list_all (\<lambda>t. t \<noteq> [] \<and> list_all (\<lambda>c. \<not> isspace c) t) (split_acc cur s)"
  by (induction s arbitrary: cur) simp_all

lemma split_acc_concat:
  "concat (split_acc cur s) = rev cur @ filter (\<lambda>c. \<not> isspace c) s"
  by (induction s arbitrary: cur) simp_all

lemma split_tokens:
  "list_all (\<lambda>t. t \<noteq> [] \<and> list_all (\<lambda>c. \<not> isspace c) t) (split s)"
  by (simp add: split_def split_acc_tokens)

lemma split_concat: "concat (split s) = filter (\<lambda>c. \<not> isspace c) s"
  by (simp add: split_def split_acc_concat)

lemma filter_dropWhile_space:
  "filter (\<lambda>c. \<not> isspace c) (dropWhile isspace s) = filter (\<lambda>c. \<not> isspace c) s"
  by (induction s) simp_all

lemma filter_strip: "filter (\<lambda>c. \<not> isspace c) (strip line) = filter (\<lambda>c. \<not> isspace c) line"
proof -
  have "filter (\<lambda>c. \<not> isspace c) (strip line)
          = rev (filter (\<lambda>c. \<not> isspace c) (dropWhile isspace (rev (dropWhile isspace line))))"
    by (simp add: strip_def rev_filter)
  also have "\<dots> = rev (filter (\<lambda>c. \<not> isspace c) (rev (dropWhile isspace line)))"
    by (simp only: filter_dropWhile_space)
  also have "\<dots> = filter (\<lambda>c. \<not> isspace c) (dropWhile isspace line)"
    by (simp add: rev_filter)
  also have "\<dots> = filter (\<lambda>c. \<not> isspace c) line"
    by (rule filter_dropWhile_space)
  finally show ?thesis .
qed

text \<open>
  Claim C5. For every line, \<^verbatim>\<open>parse_log_line\<close> returns and does not raise. It returns
  \<^verbatim>\<open>None\<close> exactly when the line does not split into 6 white-space separated tokens, or
  the first, fifth or sixth token is not an integer literal; otherwise it returns the
  record of the six tokens with the method in upper case. The tokens are the non-empty
  runs of characters other than white space, in the order of the line.
\<close>

theorem parse_log_line_malformed_or_record:
  "(\<exists>res. parse_log_line line = Inr res)
   \<and> (parse_log_line line = Inr None)
       = (\<not> (length (split (strip line)) = 6
             \<and> int_literal (split (strip line) ! 0) \<noteq> None
             \<and> int_literal (split (strip line) ! 4) \<noteq> None
             \<and> int_literal (split (strip line) ! 5) \<noteq> None))
   \<and> parse_log_line line =
       (if length (split (strip line)) = 6
           \<and> int_literal (split (strip line) ! 0) \<noteq> None
           \<and> int_literal (split (strip line) ! 4) \<noteq> None
           \<and> int_literal (split (strip line) ! 5) \<noteq> None
        then Inr (Some (the (int_literal (split (strip line) ! 0)),
                        split (strip line) ! 1,
                        upper (split (strip line) ! 2),
                        split (strip line) ! 3,
                        the (int_literal (split (strip line) ! 4)),
                        the (int_literal (split (strip line) ! 5))))
        else Inr None)
   \<and> list_all (\<lambda>t. t \<noteq> [] \<and> list_all (\<lambda>c. \<not> isspace c) t) (split (strip line))
   \<and> concat (split (strip line)) = filter (\<lambda>c. \<not> isspace c) line"
proof -
  have r: "parse_log_line line =
       (if length (split (strip line)) = 6
           \<and> int_literal (split (strip line) ! 0) \<noteq> None
           \<and> int_literal (split (strip line) ! 4) \<noteq> None
           \<and> int_literal (split (strip line) ! 5) \<noteq> None
        then Inr (Some (the (int_literal (split (strip line) ! 0)),
                        split (strip line) ! 1,
                        upper (split (strip line) ! 2),
                        split (strip line) ! 3,
                        the (int_literal (split (strip line) ! 4)),
                        the (int_literal (split (strip line) ! 5))))
        else Inr None)"
    by (auto simp add: parse_log_line_Inr parsed_record_cases Let_def split: option.splits)
  have "\<exists>res. parse_log_line line = Inr res"
    by (simp add: parse_log_line_Inr)
  moreover have "(parse_log_line line = Inr None)
       = (\<not> (length (split (strip line)) = 6
             \<and> int_literal (split (strip line) ! 0) \<noteq> None
             \<and> int_literal (split (strip line) ! 4) \<noteq> None
             \<and> int_literal (split (strip line) ! 5) \<noteq> None))"
    by (subst r) simp
  moreover note r split_tokens [of "strip line"]
  moreover have "concat (split (strip line)) = filter (\<lambda>c. \<not> isspace c) line"
    by (simp only: split_concat filter_strip)
  ultimately show ?thesis by blast
qed

theorem parse_log_line_malformed_or_record_witness:
  "parse_log_line ''1000 10.0.0.1 get /a 200 500''
     = Inr (Some (1000, ''10.0.0.1'', ''GET'', ''/a'', 200, 500))
   \<and> parse_log_line ''1000 10.0.0.1 GET /a 200'' = Inr None
   \<and> parse_log_line ''1000 10.0.0.1 GET /a 2x0 500'' = Inr None"
proof -
  have s1: "split (strip ''1000 10.0.0.1 get /a 200 500'')
              = [''1000'', ''10.0.0.1'', ''get'', ''/a'', ''200'', ''500'']"
    by code_simp
  have s2: "split (strip ''1000 10.0.0.1 GET /a 200'')
              = [''1000'', ''10.0.0.1'', ''GET'', ''/a'', ''200'']"
    by code_simp
  have s3: "split (strip ''1000 10.0.0.1 GET /a 2x0 500'')
              = [''1000'', ''10.0.0.1'', ''GET'', ''/a'', ''2x0'', ''500'']"
    by code_simp
  have i: "int_literal ''1000'' = Some 1000" "int_literal ''200'' = Some 200"
    "int_literal ''500'' = Some 500" "int_literal ''2x0'' = None"
    by code_simp+
  have u: "upper ''get'' = ''GET''"
    by code_simp
  show ?thesis
    using parse_log_line_malformed_or_record [of "''1000 10.0.0.1 get /a 200 500''"]
      parse_log_line_malformed_or_record [of "''1000 10.0.0.1 GET /a 200''"]
      parse_log_line_malformed_or_record [of "''1000 10.0.0.1 GET /a 2x0 500''"]
    by (simp add: s1 s2 s3 i u)
qed

section \<open>The cutoff derived by the driver\<close>




section \<open>Ties in the report\<close>

lemma sorted_items_stable:
  "filter (\<lambda>(k, n). n = v) (sorted_items c) = filter (\<lambda>(k, n). n = v) c"
proof -
  have eq: "(\<lambda>(k, n). n = v) = (\<lambda>y. (case y of (k :: 'a, n :: int) \<Rightarrow> - n) = - v)"
    by (auto simp add: fun_eq_iff)
  show ?thesis
    unfolding sorted_items_def eq by (rule sort_key_stable)
qed

lemma sorted_items_descending: "sorted (map (\<lambda>(k, n). - n) (sorted_items c))"
  unfolding sorted_items_def by (rule sorted_sort_key)

lemma most_common_descending: "sorted (map (\<lambda>(k, n). - n) (most_common N c))"
  unfolding most_common_def take_map [symmetric]
  by (rule sorted_wrt_take) (rule sorted_items_descending)

lemma counter_get_Cons:
  "counter_get ((k, n) # c) k' = (if k' = k then n else counter_get c k')"
  by (simp add: counter_get_def)

lemma keys_with_count:
  assumes "distinct (map fst c)"
  shows "map fst (filter (\<lambda>(k, n). n = v) c) = filter (\<lambda>k. counter_get c k = v) (map fst c)"
  using assms
proof (induction c)
  case Nil
  then show ?case by simp
next
  case (Cons x c)
  obtain k n where x: "x = (k, n)" by (cases x)
  have notin: "k \<notin> set (map fst c)" and d: "distinct (map fst c)"
    using Cons.prems by (simp_all add: x)
  have "filter (\<lambda>k'. counter_get ((k, n) # c) k' = v) (map fst c)
          = filter (\<lambda>k'. counter_get c k' = v) (map fst c)"
    using notin by (intro filter_cong) (auto simp add: counter_get_Cons)
  then show ?case
    using Cons.IH [OF d] by (simp add: x counter_get_Cons)
qed

lemma counter_items:
  assumes "distinct (map fst c)"
  shows "map (\<lambda>k. (k, counter_get c k)) (map fst c) = c"
  using assms
proof (induction c)
  case Nil
  then show ?case by simp
next
  case (Cons x c)
  obtain k n where x: "x = (k, n)" by (cases x)
  have notin: "k \<notin> set (map fst c)" and d: "distinct (map fst c)"
    using Cons.prems by (simp_all add: x)
  have e: "map (\<lambda>k'. (k', counter_get ((k, n) # c) k')) (map fst c)
          = map (\<lambda>k'. (k', counter_get c k')) (map fst c)"
    using notin by (intro map_cong) (auto simp add: counter_get_Cons)
  have "map (\<lambda>k'. (k', counter_get ((k, n) # c) k')) (map fst ((k, n) # c))
          = (k, n) # map (\<lambda>k'. (k', counter_get ((k, n) # c) k')) (map fst c)"
    by (simp add: counter_get_Cons)
  also have "\<dots> = (k, n) # c"
    by (simp only: e Cons.IH [OF d])
  finally show ?case
    by (simp only: x)
qed

lemma counter_get_fresh:
  "counter_get (foldl (\<lambda>c k. counter_inc k c) [] ks) k = int (count_list ks k)"
proof -
  have "k \<notin> set ks \<Longrightarrow> count_list ks k = 0"
    by (simp add: count_list_0_iff)
  then show ?thesis
    unfolding counter_get_def map_of_counter_fold
    by (auto simp add: counter_get_def)
qed

lemma fresh_counter_items:
  "foldl (\<lambda>c k. counter_inc k c) [] ks = map (\<lambda>k. (k, int (count_list ks k))) (first_seen ks)"
proof -
  let ?c = "foldl (\<lambda>c k. counter_inc k c) [] ks"
  have "distinct (map fst ?c)"
    by (simp add: keys_counter_fresh distinct_first_seen)
  then have "map (\<lambda>k. (k, counter_get ?c k)) (map fst ?c) = ?c"
    by (rule counter_items)
  then show ?thesis
    by (simp only: counter_get_fresh keys_counter_fresh)
qed

lemma fresh_analyzer_counters:
  "method_counter (process_calls (TrafficAnalyzer n) calls)
     = map (\<lambda>k. (k, int (count_list (map (\<lambda>(r, cutoff). method_of r) calls) k)))
         (first_seen (map (\<lambda>(r, cutoff). method_of r) calls))"
  "ip_counter (process_calls (TrafficAnalyzer n) calls)
     = map (\<lambda>k. (k, int (count_list (map (\<lambda>(r, cutoff). ip_of r) calls) k)))
         (first_seen (map (\<lambda>(r, cutoff). ip_of r) calls))"
  "url_counter (process_calls (TrafficAnalyzer n) calls)
     = map (\<lambda>k. (k, int (count_list (map (\<lambda>(r, cutoff). url_of r) calls) k)))
         (first_seen (map (\<lambda>(r, cutoff). url_of r) calls))"
  by (simp_all only: process_calls_counters TrafficAnalyzer_def traffic_analyzer.simps
        fresh_counter_items)

lemma tied_keys_sorted:
  "map fst (filter (\<lambda>(k, n). n = v)
       (sorted_items (map (\<lambda>k. (k, int (count_list ks k))) (first_seen ks))))
     = filter (\<lambda>k. int (count_list ks k) = v) (first_seen ks)"
proof -
  have "map fst (filter (\<lambda>(k, n). n = v) (map (\<lambda>k. (k, int (count_list ks k))) (first_seen ks)))
          = filter (\<lambda>k. int (count_list ks k) = v) (first_seen ks)"
    by (simp add: filter_map comp_def)
  then show ?thesis
    by (simp only: sorted_items_stable)
qed

lemma tied_keys_most_common:
  "map fst (filter (\<lambda>(k, n). n = v)
       (most_common N (map (\<lambda>k. (k, int (count_list ks k))) (first_seen ks))))
     = take (length (filter (\<lambda>(k, n). n = v)
                (most_common N (map (\<lambda>k. (k, int (count_list ks k))) (first_seen ks)))))
         (filter (\<lambda>k. int (count_list ks k) = v) (first_seen ks))"
proof -
  let ?c = "map (\<lambda>k. (k, int (count_list ks k))) (first_seen ks)"
  let ?l = "length (filter (\<lambda>(k, n). n = v) (most_common N ?c))"
  have a: "filter (\<lambda>(k, n). n = v) (most_common N ?c)
          = take ?l (filter (\<lambda>(k, n). n = v) (sorted_items ?c))"
    unfolding most_common_def by (rule filter_take_prefix)
  have "map fst (filter (\<lambda>(k, n). n = v) (most_common N ?c))
          = map fst (take ?l (filter (\<lambda>(k, n). n = v) (sorted_items ?c)))"
    by (rule arg_cong [OF a])
  also have "\<dots> = take ?l (map fst (filter (\<lambda>(k, n). n = v) (sorted_items ?c)))"
    by (rule take_map [symmetric])
  also have "\<dots> = take ?l (filter (\<lambda>k. int (count_list ks k) = v) (first_seen ks))"
    by (rule arg_cong [OF tied_keys_sorted])
  finally show ?thesis .
qed

text \<open>
  Claim C10. Let the analyzer be a fresh one that has processed the records \<open>calls\<close> in
  this order. Each of the three counters lists its keys in the order in which they were
  first counted, each with its number of occurrences. \<^verbatim>\<open>generate_report\<close> joins the
  sections with newlines; the request distribution writes one line for each item of
  \<^verbatim>\<open>sorted(method_counter.items(), key=lambda x: x[1], reverse=True)\<close> in the order of
  that list, and the two top lists write one numbered line for each item of
  \<^verbatim>\<open>most_common\<close> in the order of that list. These lists fall in count, and for every
  count \<open>v\<close> the keys written with the count \<open>v\<close> are the keys that occur \<open>v\<close> times in
  first-seen order: all of them in the request distribution, and the first of them in a
  top list. So the order of the lines of the three sections is fixed by the sequence of
  the records alone.
\<close>

theorem report_ties_first_seen:
  "method_counter (process_calls (TrafficAnalyzer n) calls)
     = map (\<lambda>k. (k, int (count_list (map (\<lambda>(r, cutoff). method_of r) calls) k)))
         (first_seen (map (\<lambda>(r, cutoff). method_of r) calls))
   \<and> ip_counter (process_calls (TrafficAnalyzer n) calls)
     = map (\<lambda>k. (k, int (count_list (map (\<lambda>(r, cutoff). ip_of r) calls) k)))
         (first_seen (map (\<lambda>(r, cutoff). ip_of r) calls))
   \<and> url_counter (process_calls (TrafficAnalyzer n) calls)
     = map (\<lambda>k. (k, int (count_list (map (\<lambda>(r, cutoff). url_of r) calls) k)))
         (first_seen (map (\<lambda>(r, cutoff). url_of r) calls))
   \<and> generate_report pf (process_calls (TrafficAnalyzer n) calls) args cutoff =
     bind_err (basic_statistics (process_calls (TrafficAnalyzer n) calls)) (\<lambda>basic.
       Inr (join [CHR 0x0A]
         ([''====== TRAFFIC ANALYSIS REPORT ======'' @ [CHR 0x0A]]
          @ filter_settings args
          @ basic
          @ request_distribution pf (process_calls (TrafficAnalyzer n) calls)
          @ performance_metrics pf (process_calls (TrafficAnalyzer n) calls)
          @ top_ips_section (process_calls (TrafficAnalyzer n) calls) args
          @ top_urls_section (process_calls (TrafficAnalyzer n) calls)
          @ recent_activity pf (process_calls (TrafficAnalyzer n) calls) cutoff)))
   \<and> request_distribution pf (process_calls (TrafficAnalyzer n) calls) =
     [''Request distribution:'']
     @ (if calls = [] then [''(no data)'']
        else map (\<lambda>(method, count).
                    ''- '' @ method @ '': '' @ pct_text pf count (int (length calls)) @ ''%'')
                 (sorted_items (method_counter (process_calls (TrafficAnalyzer n) calls))))
     @ [[]]
   \<and> top_ips_section (process_calls (TrafficAnalyzer n) calls) args =
     [''Top '' @ str_int (args_top args) @ '' active IPs:'']
     @ (if most_common (args_top args) (ip_counter (process_calls (TrafficAnalyzer n) calls)) = []
        then [''(no data)'']
        else map (\<lambda>(i, (ip, count)).
                    show_nat i @ ''. '' @ ip @ '': '' @ str_int count @ '' requests'')
                 (List.enumerate 1
                    (most_common (args_top args)
                       (ip_counter (process_calls (TrafficAnalyzer n) calls)))))
     @ [[]]
   \<and> top_urls_section (process_calls (TrafficAnalyzer n) calls) =
     [''Top 5 requested URLs:'']
     @ (if most_common 5 (url_counter (process_calls (TrafficAnalyzer n) calls)) = []
        then [''(no data)'']
        else map (\<lambda>(i, (url, count)). show_nat i @ ''. '' @ url @ '': '' @ str_int count)
                 (List.enumerate 1
                    (most_common 5 (url_counter (process_calls (TrafficAnalyzer n) calls)))))
     @ [[]]
   \<and> sorted (map (\<lambda>(k, count). - count)
        (sorted_items (method_counter (process_calls (TrafficAnalyzer n) calls))))
   \<and> sorted (map (\<lambda>(k, count). - count)
        (most_common (args_top args) (ip_counter (process_calls (TrafficAnalyzer n) calls))))
   \<and> sorted (map (\<lambda>(k, count). - count)
        (most_common 5 (url_counter (process_calls (TrafficAnalyzer n) calls))))
   \<and> map fst (filter (\<lambda>(k, count). count = v)
        (sorted_items (method_counter (process_calls (TrafficAnalyzer n) calls))))
     = filter (\<lambda>k. int (count_list (map (\<lambda>(r, cutoff). method_of r) calls) k) = v)
         (first_seen (map (\<lambda>(r, cutoff). method_of r) calls))
   \<and> map fst (filter (\<lambda>(k, count). count = v)
        (most_common (args_top args) (ip_counter (process_calls (TrafficAnalyzer n) calls))))
     = take (length (filter (\<lambda>(k, count). count = v)
                (most_common (args_top args)
                   (ip_counter (process_calls (TrafficAnalyzer n) calls)))))
         (filter (\<lambda>k. int (count_list (map (\<lambda>(r, cutoff). ip_of r) calls) k) = v)
            (first_seen (map (\<lambda>(r, cutoff). ip_of r) calls)))
   \<and> map fst (filter (\<lambda>(k, count). count = v)
        (most_common 5 (url_counter (process_calls (TrafficAnalyzer n) calls))))
     = take (length (filter (\<lambda>(k, count). count = v)
                (most_common 5 (url_counter (process_calls (TrafficAnalyzer n) calls)))))
         (filter (\<lambda>k. int (count_list (map (\<lambda>(r, cutoff). url_of r) calls) k) = v)
            (first_seen (map (\<lambda>(r, cutoff). url_of r) calls)))"
proof -
  let ?a = "process_calls (TrafficAnalyzer n) calls"
  have total: "total_requests ?a = int (length calls)"
    by (simp add: process_calls_totals TrafficAnalyzer_def)
  have rep: "generate_report pf ?a args cutoff =
     bind_err (basic_statistics ?a) (\<lambda>basic.
       Inr (join [CHR 0x0A]
         ([''====== TRAFFIC ANALYSIS REPORT ======'' @ [CHR 0x0A]]
          @ filter_settings args @ basic @ request_distribution pf ?a
          @ performance_metrics pf ?a @ top_ips_section ?a args
          @ top_urls_section ?a @ recent_activity pf ?a cutoff)))"
    by (simp add: generate_report_def report_lines_def bind_err_def split: sum.splits)
  have dist: "request_distribution pf ?a =
     [''Request distribution:'']
     @ (if calls = [] then [''(no data)'']
        else map (\<lambda>(method, count).
                    ''- '' @ method @ '': '' @ pct_text pf count (int (length calls)) @ ''%'')
                 (sorted_items (method_counter ?a)))
     @ [[]]"
    unfolding request_distribution_def total by simp
  have ips: "top_ips_section ?a args =
     [''Top '' @ str_int (args_top args) @ '' active IPs:'']
     @ (if most_common (args_top args) (ip_counter ?a) = [] then [''(no data)'']
        else map (\<lambda>(i, (ip, count)).
                    show_nat i @ ''. '' @ ip @ '': '' @ str_int count @ '' requests'')
                 (List.enumerate 1 (most_common (args_top args) (ip_counter ?a))))
     @ [[]]"
    by (simp add: top_ips_section_def Let_def)
  have urls: "top_urls_section ?a =
     [''Top 5 requested URLs:'']
     @ (if most_common 5 (url_counter ?a) = [] then [''(no data)'']
        else map (\<lambda>(i, (url, count)). show_nat i @ ''. '' @ url @ '': '' @ str_int count)
                 (List.enumerate 1 (most_common 5 (url_counter ?a))))
     @ [[]]"
    by (simp add: top_urls_section_def Let_def)
  have t1: "map fst (filter (\<lambda>(k, count). count = v) (sorted_items (method_counter ?a)))
     = filter (\<lambda>k. int (count_list (map (\<lambda>(r, cutoff). method_of r) calls) k) = v)
         (first_seen (map (\<lambda>(r, cutoff). method_of r) calls))"
    unfolding fresh_analyzer_counters by (rule tied_keys_sorted)
  have t2: "map fst (filter (\<lambda>(k, count). count = v) (most_common N (ip_counter ?a)))
     = take (length (filter (\<lambda>(k, count). count = v) (most_common N (ip_counter ?a))))
         (filter (\<lambda>k. int (count_list (map (\<lambda>(r, cutoff). ip_of r) calls) k) = v)
            (first_seen (map (\<lambda>(r, cutoff). ip_of r) calls)))" for N
    unfolding fresh_analyzer_counters by (rule tied_keys_most_common)
  have t3: "map fst (filter (\<lambda>(k, count). count = v) (most_common 5 (url_counter ?a)))
     = take (length (filter (\<lambda>(k, count). count = v) (most_common 5 (url_counter ?a))))
         (filter (\<lambda>k. int (count_list (map (\<lambda>(r, cutoff). url_of r) calls) k) = v)
            (first_seen (map (\<lambda>(r, cutoff). url_of r) calls)))"
    unfolding fresh_analyzer_counters by (rule tied_keys_most_common)
  show ?thesis
    using fresh_analyzer_counters [of n calls] rep dist ips urls
      sorted_items_descending [of "method_counter ?a"]
      most_common_descending [of "args_top args" "ip_counter ?a"]
      most_common_descending [of 5 "url_counter ?a"]
      t1 t2 [of "args_top args"] t3
    by blast
qed

theorem report_ties_first_seen_witness:
  "request_distribution \<lparr>pct_text = (\<lambda>c t. []), avg_text = (\<lambda>s n. []), hour_text = (\<lambda>ts. [])\<rparr>
     (process_calls (TrafficAnalyzer 3)
        [((1, ''10.0.0.2'', ''POST'', ''/b'', 200, 10), None),
         ((2, ''10.0.0.1'', ''GET'', ''/a'', 200, 10), None),
         ((3, ''10.0.0.3'', ''PUT'', ''/c'', 200, 10), None),
         ((4, ''10.0.0.3'', ''PUT'', ''/c'', 200, 10), None),
         ((5, ''10.0.0.4'', ''GET'', ''/d'', 200, 10), None)])
     = [''Request distribution:'', ''- GET: %'', ''- PUT: %'', ''- POST: %'', []]
   \<and> top_ips_section
     (process_calls (TrafficAnalyzer 3)
        [((1, ''10.0.0.2'', ''POST'', ''/b'', 200, 10), None),
         ((2, ''10.0.0.1'', ''GET'', ''/a'', 200, 10), None),
         ((3, ''10.0.0.3'', ''PUT'', ''/c'', 200, 10), None),
         ((4, ''10.0.0.3'', ''PUT'', ''/c'', 200, 10), None),
         ((5, ''10.0.0.4'', ''GET'', ''/d'', 200, 10), None)]) default_args
     = [''Top 3 active IPs:'', ''1. 10.0.0.3: 2 requests'', ''2. 10.0.0.2: 1 requests'',
        ''3. 10.0.0.1: 1 requests'', []]
   \<and> top_urls_section
     (process_calls (TrafficAnalyzer 3)
        [((1, ''10.0.0.2'', ''POST'', ''/b'', 200, 10), None),
         ((2, ''10.0.0.1'', ''GET'', ''/a'', 200, 10), None),
         ((3, ''10.0.0.3'', ''PUT'', ''/c'', 200, 10), None),
         ((4, ''10.0.0.3'', ''PUT'', ''/c'', 200, 10), None),
         ((5, ''10.0.0.4'', ''GET'', ''/d'', 200, 10), None)])
     = [''Top 5 requested URLs:'', ''1. /c: 2'', ''2. /b: 1'', ''3. /a: 1'', ''4. /d: 1'', []]"
proof -
  let ?calls = "[((1, ''10.0.0.2'', ''POST'', ''/b'', 200, 10), None),
         ((2, ''10.0.0.1'', ''GET'', ''/a'', 200, 10), None),
         ((3, ''10.0.0.3'', ''PUT'', ''/c'', 200, 10), None),
         ((4, ''10.0.0.3'', ''PUT'', ''/c'', 200, 10), None),
         ((5, ''10.0.0.4'', ''GET'', ''/d'', 200, 10), None)] :: (log_record \<times> int option) list"
  let ?a = "process_calls (TrafficAnalyzer 3) ?calls"
  note t = report_ties_first_seen [where n = 3 and calls = ?calls and args = default_args
      and cutoff = None and v = 1
      and pf = "\<lparr>pct_text = (\<lambda>c t. []), avg_text = (\<lambda>s n. []), hour_text = (\<lambda>ts. [])\<rparr>"]
  have m: "method_counter ?a = [(''POST'', 1), (''GET'', 2), (''PUT'', 2)]"
    using t [THEN conjunct1] by (simp add: method_of_def)
  have i: "ip_counter ?a
             = [(''10.0.0.2'', 1), (''10.0.0.1'', 1), (''10.0.0.3'', 2), (''10.0.0.4'', 1)]"
    using t [THEN conjunct2, THEN conjunct1] by (simp add: ip_of_def)
  have u: "url_counter ?a = [(''/b'', 1), (''/a'', 1), (''/c'', 2), (''/d'', 1)]"
    using t [THEN conjunct2, THEN conjunct2, THEN conjunct1] by (simp add: url_of_def)
  have n: "show_nat 1 = ''1''" "show_nat 2 = ''2''" "show_nat 3 = ''3''" "show_nat 4 = ''4''"
    "show_nat (Suc 0) = ''1''" "show_nat (Suc (Suc 0)) = ''2''"
    by (simp_all add: show_nat.simps digit_char_def)
  have "Suc (Suc (Suc 0)) = 3" "Suc (Suc (Suc (Suc 0))) = 4"
    by simp_all
  then have n': "show_nat (Suc (Suc (Suc 0))) = ''3''" "show_nat (Suc (Suc (Suc (Suc 0)))) = ''4''"
    by (simp_all only: n)
  have s: "str_int 1 = ''1''" "str_int 2 = ''2''" "str_int 3 = ''3''"
    by (simp_all add: str_int_def n)
  have d: "request_distribution
      \<lparr>pct_text = (\<lambda>c t. []), avg_text = (\<lambda>s n. []), hour_text = (\<lambda>ts. [])\<rparr> ?a
     = [''Request distribution:'', ''- GET: %'', ''- PUT: %'', ''- POST: %'', []]"
    using t [THEN conjunct2, THEN conjunct2, THEN conjunct2, THEN conjunct2, THEN conjunct1]
    unfolding m by (simp add: sorted_items_def)
  have p: "top_ips_section ?a default_args
     = [''Top 3 active IPs:'', ''1. 10.0.0.3: 2 requests'', ''2. 10.0.0.2: 1 requests'',
        ''3. 10.0.0.1: 1 requests'', []]"
    using t [THEN conjunct2, THEN conjunct2, THEN conjunct2, THEN conjunct2, THEN conjunct2,
             THEN conjunct1]
    unfolding i
    by (simp add: sorted_items_def most_common_def default_args_def enumerate_eq_zip
          upt_rec n n' s)
  have q: "top_urls_section ?a
     = [''Top 5 requested URLs:'', ''1. /c: 2'', ''2. /b: 1'', ''3. /a: 1'', ''4. /d: 1'', []]"
    using t [THEN conjunct2, THEN conjunct2, THEN conjunct2, THEN conjunct2, THEN conjunct2,
             THEN conjunct2, THEN conjunct1]
    unfolding u
    by (simp add: sorted_items_def most_common_def enumerate_eq_zip upt_rec n n' s)
  show ?thesis
    using d p q by (intro conjI)
qed

section \<open>Shuffling the lines of the log\<close>

text \<open>
  Claim C8. For two files with the same lines in any order, the scan finds the same
  largest matching timestamp, so \<^verbatim>\<open>main\<close> derives the same cutoff \<open>m - 86400\<close>, and for
  any cutoff the second pass ends in aggregator states with the same statistics: every
  scalar counter, the set of IPs, and every counter as a function from keys to counts.
  The two reports are the same text as soon as the sorted method list and the two top
  lists agree, which are the only places where the order of equal counts shows; they
  agree in particular when no two methods, no two IPs and no two URLs have the same
  count.
\<close>

theorem shuffled_lines_same_statistics:
  assumes "mset lns = mset lns'"
  shows "find_max_timestamp lns args = find_max_timestamp lns' args
    \<and> (\<exists>a w a' w'.
          process_file lns args cutoff = Inr (a, w)
          \<and> process_file lns' args cutoff = Inr (a', w')
          \<and> same_statistics a a'
          \<and> length (recent_ip_counts a) = length (recent_ip_counts a')
          \<and> (sorted_items (method_counter a) = sorted_items (method_counter a')
               \<and> most_common (args_top args) (ip_counter a)
                   = most_common (args_top args) (ip_counter a')
               \<and> most_common 5 (url_counter a) = most_common 5 (url_counter a')
               \<longrightarrow> generate_report pf a args cutoff = generate_report pf a' args cutoff)
          \<and> (distinct (map snd (method_counter a)) \<and> distinct (map snd (ip_counter a))
               \<and> distinct (map snd (url_counter a))
               \<longrightarrow> generate_report pf a args cutoff = generate_report pf a' args cutoff))"
proof -
  let ?a = "process_calls (TrafficAnalyzer (args_top args))
              (map (\<lambda>r. (r, cutoff)) (matching_records args lns))"
  let ?a' = "process_calls (TrafficAnalyzer (args_top args))
              (map (\<lambda>r. (r, cutoff)) (matching_records args lns'))"
  have perm: "mset (map (\<lambda>r. (r, cutoff)) (matching_records args lns))
          = mset (map (\<lambda>r. (r, cutoff)) (matching_records args lns'))"
    using matching_records_perm [OF assms, of args] by simp
  have same: "same_statistics ?a ?a'"
    using assms by (rule process_file_perm)
  have len: "length (recent_ip_counts ?a) = length (recent_ip_counts ?a')"
    using perm by (rule fresh_analyzer_recent_perm)
  have cong: "generate_report pf ?a args cutoff = generate_report pf ?a' args cutoff"
    if "sorted_items (method_counter ?a) = sorted_items (method_counter ?a')"
      and "most_common (args_top args) (ip_counter ?a)
             = most_common (args_top args) (ip_counter ?a')"
      and "most_common 5 (url_counter ?a) = most_common 5 (url_counter ?a')"
    using report_lines_cong [OF same len that] by (simp add: generate_report_def)
  have noties: "generate_report pf ?a args cutoff = generate_report pf ?a' args cutoff"
    if "distinct (map snd (method_counter ?a))" and "distinct (map snd (ip_counter ?a))"
      and "distinct (map snd (url_counter ?a))"
  proof -
    have m: "map_of (method_counter ?a) = map_of (method_counter ?a')"
      and i: "map_of (ip_counter ?a) = map_of (ip_counter ?a')"
      and u: "map_of (url_counter ?a) = map_of (url_counter ?a')"
      using same by (simp_all add: same_statistics_def)
    have "sorted_items (method_counter ?a) = sorted_items (method_counter ?a')"
      using fresh_analyzer_keys(1) fresh_analyzer_keys(1) m that(1)
      by (rule sorted_items_no_ties)
    moreover have si: "sorted_items (ip_counter ?a) = sorted_items (ip_counter ?a')"
      using fresh_analyzer_keys(2) fresh_analyzer_keys(2) i that(2)
      by (rule sorted_items_no_ties)
    moreover have su: "sorted_items (url_counter ?a) = sorted_items (url_counter ?a')"
      using fresh_analyzer_keys(3) fresh_analyzer_keys(3) u that(3)
      by (rule sorted_items_no_ties)
    ultimately show ?thesis
      by (intro cong) (simp_all add: most_common_def)
  qed
  have "find_max_timestamp lns args = find_max_timestamp lns' args"
    using assms by (rule find_max_timestamp_perm)
  moreover have "process_file lns args cutoff = Inr (?a, invalid_warnings 1 lns)"
    and "process_file lns' args cutoff = Inr (?a', invalid_warnings 1 lns')"
    by (rule process_file_closed)+
  ultimately show ?thesis
    using same len cong noties by blast
qed

theorem shuffled_lines_same_statistics_witness:
  "mset [''1000 10.0.0.1 GET /a 200 500'', ''2000 10.0.0.2 POST /b 404 7'',
         ''1000 10.0.0.1 GET /a 200 500'']
     = mset [''2000 10.0.0.2 POST /b 404 7'', ''1000 10.0.0.1 GET /a 200 500'',
             ''1000 10.0.0.1 GET /a 200 500'']
   \<and> find_max_timestamp
         [''1000 10.0.0.1 GET /a 200 500'', ''2000 10.0.0.2 POST /b 404 7'',
          ''1000 10.0.0.1 GET /a 200 500''] default_args
       = find_max_timestamp
           [''2000 10.0.0.2 POST /b 404 7'', ''1000 10.0.0.1 GET /a 200 500'',
            ''1000 10.0.0.1 GET /a 200 500''] default_args
   \<and> method_counter (process_calls (TrafficAnalyzer 3)
         (map (\<lambda>r. (r, Some (2000 - 86400)))
            [(1000, ''10.0.0.1'', ''GET'', ''/a'', 200, 500),
             (2000, ''10.0.0.2'', ''POST'', ''/b'', 404, 7),
             (1000, ''10.0.0.1'', ''GET'', ''/a'', 200, 500)]))
       = [(''GET'', 2), (''POST'', 1)]
   \<and> method_counter (process_calls (TrafficAnalyzer 3)
         (map (\<lambda>r. (r, Some (2000 - 86400)))
            [(2000, ''10.0.0.2'', ''POST'', ''/b'', 404, 7),
             (1000, ''10.0.0.1'', ''GET'', ''/a'', 200, 500),
             (1000, ''10.0.0.1'', ''GET'', ''/a'', 200, 500)]))
       = [(''POST'', 1), (''GET'', 2)]
   \<and> generate_report
         \<lparr>pct_text = (\<lambda>c t. []), avg_text = (\<lambda>s n. []), hour_text = (\<lambda>ts. [])\<rparr>
         (process_calls (TrafficAnalyzer 3)
            (map (\<lambda>r. (r, Some (2000 - 86400)))
               [(1000, ''10.0.0.1'', ''GET'', ''/a'', 200, 500),
                (2000, ''10.0.0.2'', ''POST'', ''/b'', 404, 7),
                (1000, ''10.0.0.1'', ''GET'', ''/a'', 200, 500)]))
         default_args (Some (2000 - 86400))
       = generate_report
           \<lparr>pct_text = (\<lambda>c t. []), avg_text = (\<lambda>s n. []), hour_text = (\<lambda>ts. [])\<rparr>
           (process_calls (TrafficAnalyzer 3)
              (map (\<lambda>r. (r, Some (2000 - 86400)))
                 [(2000, ''10.0.0.2'', ''POST'', ''/b'', 404, 7),
                  (1000, ''10.0.0.1'', ''GET'', ''/a'', 200, 500),
                  (1000, ''10.0.0.1'', ''GET'', ''/a'', 200, 500)]))
           default_args (Some (2000 - 86400))"
proof -
  let ?l1 = "''1000 10.0.0.1 GET /a 200 500''"
  let ?l2 = "''2000 10.0.0.2 POST /b 404 7''"
  let ?r1 = "(1000 :: int, ''10.0.0.1'', ''GET'', ''/a'', 200 :: int, 500 :: int)"
  let ?r2 = "(2000 :: int, ''10.0.0.2'', ''POST'', ''/b'', 404 :: int, 7 :: int)"
  let ?pf = "\<lparr>pct_text = (\<lambda>c t. []), avg_text = (\<lambda>s n. []), hour_text = (\<lambda>ts. [])\<rparr>"
  let ?A = "process_calls (TrafficAnalyzer 3) (map (\<lambda>r. (r, Some (2000 - 86400))) [?r1, ?r2, ?r1])"
  let ?A' = "process_calls (TrafficAnalyzer 3) (map (\<lambda>r. (r, Some (2000 - 86400))) [?r2, ?r1, ?r1])"
  have h: "mset [?l1, ?l2, ?l1] = mset [?l2, ?l1, ?l1]"
    by simp
  have p2: "parsed_record ?l2 = Some ?r2"
    by code_simp
  have m: "matching_records default_args [?l1, ?l2, ?l1] = [?r1, ?r2, ?r1]"
    "matching_records default_args [?l2, ?l1, ?l1] = [?r2, ?r1, ?r1]"
    by (simp_all add: matching_records_Cons single_line_parsed p2 matches_default_args
        matching_records_def map_filter_simps)
  have t: "args_top default_args = 3"
    by (simp add: default_args_def)
  have f: "process_file [?l1, ?l2, ?l1] default_args (Some (2000 - 86400))
             = Inr (?A, invalid_warnings 1 [?l1, ?l2, ?l1])"
    "process_file [?l2, ?l1, ?l1] default_args (Some (2000 - 86400))
             = Inr (?A', invalid_warnings 1 [?l2, ?l1, ?l1])"
    by (simp_all only: process_file_closed m t)
  have c: "method_counter ?A = [(''GET'', 2), (''POST'', 1)]"
    "method_counter ?A' = [(''POST'', 1), (''GET'', 2)]"
    "ip_counter ?A = [(''10.0.0.1'', 2), (''10.0.0.2'', 1)]"
    "url_counter ?A = [(''/a'', 2), (''/b'', 1)]"
    by (simp_all add: process_calls_counters TrafficAnalyzer_def method_of_def ip_of_def
        url_of_def)
  have d: "distinct (map snd (method_counter ?A))" "distinct (map snd (ip_counter ?A))"
    "distinct (map snd (url_counter ?A))"
    by (simp_all only: c) simp_all
  obtain a w a' w' where
    "process_file [?l1, ?l2, ?l1] default_args (Some (2000 - 86400)) = Inr (a, w)"
    "process_file [?l2, ?l1, ?l1] default_args (Some (2000 - 86400)) = Inr (a', w')"
    "distinct (map snd (method_counter a)) \<and> distinct (map snd (ip_counter a))
       \<and> distinct (map snd (url_counter a))
     \<longrightarrow> generate_report ?pf a default_args (Some (2000 - 86400))
         = generate_report ?pf a' default_args (Some (2000 - 86400))"
    using shuffled_lines_same_statistics [OF h, of default_args "Some (2000 - 86400)" ?pf]
    by blast
  then have "generate_report ?pf ?A default_args (Some (2000 - 86400))
         = generate_report ?pf ?A' default_args (Some (2000 - 86400))"
    using f d by simp
  moreover have "find_max_timestamp [?l1, ?l2, ?l1] default_args
       = find_max_timestamp [?l2, ?l1, ?l1] default_args"
    using shuffled_lines_same_statistics [OF h, of default_args] by blast
  ultimately show ?thesis
    using h c(1,2) by blast
qed

end
